theory Spec2Isabelle
  imports Main "HOL-Library.Word"
begin

unbundle bit_operations_syntax

section \<open>JavaScript strings\<close>

text \<open>
  A JavaScript string is a sequence of UTF-16 code units: \<^verbatim>\<open>s.length\<close> counts
  code units, \<^verbatim>\<open>s.slice\<close> cuts between code units and \<^verbatim>\<open>===\<close> compares the
  sequences. \<open>str\<close> embeds an ASCII literal.
\<close>

type_synonym code_unit = "16 word"
type_synonym jsstring = "code_unit list"

definition str :: "string \<Rightarrow> jsstring" where
  "str s = map (\<lambda>c. of_nat (of_char c)) s"

text \<open>
  \<^verbatim>\<open>s.slice(a, b)\<close> for non-negative indices: both indices are clamped to the length,
  and the result is empty when the end does not exceed the start.
\<close>

definition slice :: "jsstring \<Rightarrow> nat \<Rightarrow> nat \<Rightarrow> jsstring" where
  "slice s a b = take (b - a) (drop a s)"

text \<open>
  \<^verbatim>\<open>n.toString(16)\<close> for a non-negative integer: the digits \<^verbatim>\<open>0-9a-f\<close>, most
  significant first, no leading zero, and \<^verbatim>\<open>"0"\<close> for zero.
\<close>

definition hexDigit :: "nat \<Rightarrow> code_unit" where
  "hexDigit d = (if d < 10 then of_nat (48 + d) else of_nat (87 + d))"

function toString16 :: "nat \<Rightarrow> jsstring" where
  "toString16 n = (if n < 16 then [hexDigit n] else toString16 (n div 16) @ [hexDigit (n mod 16)])"
  by pat_completeness auto
termination
  by (relation "measure (\<lambda>n. n)") auto

declare toString16.simps [simp del]

text \<open>
  \<^verbatim>\<open>s.padStart(targetLength, padString)\<close>: a string that is long enough, or an empty
  pad string, leaves \<open>s\<close> as it is; otherwise the pad string is repeated and cut to
  the missing length, and put in front.
\<close>

definition padStart :: "jsstring \<Rightarrow> nat \<Rightarrow> jsstring \<Rightarrow> jsstring" where
  "padStart s targetLength padString =
     (if targetLength \<le> length s \<or> padString = [] then s
      else take (targetLength - length s)
             (concat (replicate (targetLength - length s) padString)) @ s)"

section \<open>The \<^verbatim>\<open>crc\<close> package: \<^verbatim>\<open>crc16\<close>\<close>

text \<open>
  \<^verbatim>\<open>import { crc16 as crc } from "crc"\<close> (line 3 of the controller). The package
  turns a string argument into a buffer with \<^verbatim>\<open>Buffer.from(s)\<close>, which is the UTF-8
  encoding of the string, a lone surrogate becoming U+FFFD (bytes EF BF BD), and then
  computes CRC-16/ARC over the bytes: initial value 0, reflected polynomial A001, no
  final XOR. The package reads a 256-entry table; \<open>crc_step\<close> is the bit-serial
  form of the same division, eight steps a byte.
\<close>

definition cont_byte :: "nat \<Rightarrow> 8 word" where
  "cont_byte n = of_nat (128 + n mod 64)"

fun utf8 :: "jsstring \<Rightarrow> 8 word list" where
  "utf8 [] = []"
| "utf8 (u # us) =
     (if u < 0x80 then ucast u # utf8 us
      else if u < 0x800 then
        [of_nat (192 + unat u div 64), cont_byte (unat u)] @ utf8 us
      else if 0xD800 \<le> u \<and> u < 0xDC00 then
        (case us of
           [] \<Rightarrow> [0xEF, 0xBF, 0xBD]
         | l # us' \<Rightarrow>
             if 0xDC00 \<le> l \<and> l < 0xE000 then
               (let cp = 65536 + (unat u - 55296) * 1024 + (unat l - 56320)
                in [of_nat (240 + cp div 262144), cont_byte (cp div 4096),
                    cont_byte (cp div 64), cont_byte cp] @ utf8 us')
             else [0xEF, 0xBF, 0xBD] @ utf8 us)
      else if 0xDC00 \<le> u \<and> u < 0xE000 then [0xEF, 0xBF, 0xBD] @ utf8 us
      else [of_nat (224 + unat u div 4096), cont_byte (unat u div 64), cont_byte (unat u)]
           @ utf8 us)"

definition crc_step :: "16 word \<Rightarrow> 16 word" where
  "crc_step c = (if bit c 0 then drop_bit 1 c XOR 0xA001 else drop_bit 1 c)"

definition crc_byte :: "16 word \<Rightarrow> 8 word \<Rightarrow> 16 word" where
  "crc_byte c b = (crc_step ^^ 8) (c XOR ucast b)"

fun crc_bytes :: "16 word \<Rightarrow> 8 word list \<Rightarrow> 16 word" where
  "crc_bytes c [] = c"
| "crc_bytes c (b # bs) = crc_bytes (crc_byte c b) bs"

definition crc16 :: "jsstring \<Rightarrow> nat" where
  "crc16 s = unat (crc_bytes 0 (utf8 s))"

section \<open>The identifier check\<close>

text \<open>
  \<^verbatim>\<open>checkId\<close> of \<^verbatim>\<open>note.post.controller.ts\<close>, lines 108-122: the length test with
  its early return, the two slices, the checksum rendered by
  \<^verbatim>\<open>crc(random).toString(16).padStart(4, "0")\<close>, and the comparison.
\<close>

definition checkId :: "jsstring \<Rightarrow> bool" where
  "checkId id' =
     (if length id' \<noteq> 16 then False
      else
        let random = slice id' 0 12;
            checksum = slice id' 12 16;
            computedChecksum = padStart (toString16 (crc16 random)) 4 (str ''0'')
        in computedChecksum = checksum)"

subsection \<open>The identifier scheme as the specification words it\<close>

text \<open>
  Section 4.1 of the specification: an identifier is 16 characters of lowercase
  hexadecimal, the last 4 being the CRC-16 of the first 12, rendered as 4 lowercase hex
  digits, zero-padded. \<open>hex4\<close> is that rendering written digit by digit,
  \<open>validate_spec\<close> the three conditions of \<^verbatim>\<open>validate\<close>, and
  \<open>withChecksum\<close> the identifier that \<^verbatim>\<open>generate\<close> forms from a prefix.
\<close>

definition isLowerHex :: "code_unit \<Rightarrow> bool" where
  "isLowerHex c = ((0x30 \<le> c \<and> c \<le> 0x39) \<or> (0x61 \<le> c \<and> c \<le> 0x66))"

definition hex4 :: "nat \<Rightarrow> jsstring" where
  "hex4 n = [hexDigit (n div 4096 mod 16), hexDigit (n div 256 mod 16),
             hexDigit (n div 16 mod 16), hexDigit (n mod 16)]"

definition validate_spec :: "jsstring \<Rightarrow> bool" where
  "validate_spec i =
     (length i = 16 \<and> list_all isLowerHex i \<and> drop 12 i = hex4 (crc16 (take 12 i)))"

definition withChecksum :: "jsstring \<Rightarrow> jsstring" where
  "withChecksum p = p @ hex4 (crc16 p)"

text \<open>A code unit below 0x80 is the one that UTF-8 encodes as a single byte.\<close>

definition isAscii :: "code_unit \<Rightarrow> bool" where
  "isAscii u = (u < 0x80)"

section \<open>The identifier check with the exceptions of JavaScript\<close>

text \<open>
  \<^verbatim>\<open>checkId\<close> once more, each operation now with the exceptions it can raise, an
  exception being the result \<open>Inl\<close> that ends the function:
  \<^item> \<^verbatim>\<open>n.toString(radix)\<close> raises a RangeError unless the radix is between 2 and 36;
    \<open>numberDigits\<close> writes a number in a radix of that range, with the digits
    \<^verbatim>\<open>0-9a-z\<close>;
  \<^item> \<^verbatim>\<open>s.padStart(targetLength, padString)\<close> raises a RangeError (invalid string
    length) when it has to build a string longer than the longest string of the engine,
    which for V8 on a 64-bit platform has 2^29 - 24 code units;
  \<^item> the length and the slice of a string and the comparison \<^verbatim>\<open>===\<close> raise nothing,
    and neither does \<^verbatim>\<open>crc16\<close> of a string: \<^verbatim>\<open>Buffer.from\<close> encodes every sequence
    of code units, and the index into the table of the package is masked to 8 bits.
\<close>

datatype JsError = RangeError

definition MAX_STRING_LENGTH :: nat where
  "MAX_STRING_LENGTH = 536870888"

function numberDigits :: "nat \<Rightarrow> nat \<Rightarrow> jsstring" where
  "numberDigits radix n =
     (if n < radix \<or> radix < 2 then [hexDigit n]
      else numberDigits radix (n div radix) @ [hexDigit (n mod radix)])"
  by pat_completeness auto
termination
  by (relation "measure (\<lambda>(radix, n). n)") auto

declare numberDigits.simps [simp del]

definition numberToString :: "nat \<Rightarrow> nat \<Rightarrow> JsError + jsstring" where
  "numberToString n radix =
     (if radix < 2 \<or> 36 < radix then Inl RangeError else Inr (numberDigits radix n))"

definition stringPadStart :: "jsstring \<Rightarrow> nat \<Rightarrow> jsstring \<Rightarrow> JsError + jsstring" where
  "stringPadStart s targetLength padString =
     (if targetLength \<le> length s \<or> padString = [] then Inr s
      else if MAX_STRING_LENGTH < targetLength then Inl RangeError
      else Inr (take (targetLength - length s)
                  (concat (replicate (targetLength - length s) padString)) @ s))"

definition checkId_raising :: "jsstring \<Rightarrow> JsError + bool" where
  "checkId_raising id' =
     (if length id' \<noteq> 16 then Inr False
      else
        let random = slice id' 0 12;
            checksum = slice id' 12 16
        in case numberToString (crc16 random) 16 of
             Inl e \<Rightarrow> Inl e
           | Inr digits \<Rightarrow>
               (case stringPadStart digits 4 (str ''0'') of
                  Inl e \<Rightarrow> Inl e
                | Inr computedChecksum \<Rightarrow> Inr (computedChecksum = checksum)))"

section \<open>The request body and its validation\<close>

text \<open>
  A property of the parsed JSON body is absent (\<^verbatim>\<open>undefined\<close> when read),
  \<^verbatim>\<open>null\<close>, a string, or a value of another type (a number, a boolean, an array,
  an object). \<^verbatim>\<open>class NotePostRequest\<close> (lines 20-39) declares each field
  \<^verbatim>\<open>string | undefined\<close>, but \<^verbatim>\<open>Object.assign(notePostRequest, req.body)\<close> copies
  whatever the body holds; it keeps the default \<^verbatim>\<open>"v1"\<close> of \<^verbatim>\<open>crypto_version\<close>
  only when the body has no such key.
\<close>

datatype jsvalue = Undefined | Null | Str jsstring | NonString

record Body =
  body_ciphertext :: jsvalue
  body_hmac :: jsvalue
  body_user_id :: jsvalue
  body_plugin_version :: jsvalue
  body_crypto_version :: jsvalue

record NotePostRequest =
  ciphertext :: jsvalue
  hmac :: jsvalue
  user_id :: jsvalue
  plugin_version :: jsvalue
  crypto_version :: jsvalue

definition assign :: "Body \<Rightarrow> NotePostRequest" where
  "assign b =
     \<lparr>ciphertext = body_ciphertext b, hmac = body_hmac b, user_id = body_user_id b,
      plugin_version = body_plugin_version b,
      crypto_version =
        (case body_crypto_version b of Undefined \<Rightarrow> Str (str ''v1'') | v \<Rightarrow> v)\<rparr>"

subsection \<open>The decorators of \<^verbatim>\<open>class-validator\<close>\<close>

text \<open>
  The decorators call \<^verbatim>\<open>validator.js\<close> on a value that is a string, and fail on a
  value that is not:
  \<^item> \<^verbatim>\<open>isBase64\<close>: the length is a multiple of 4, no character outside
    \<^verbatim>\<open>[A-Za-z0-9+/=]\<close>, and the first \<^verbatim>\<open>=\<close>, if any, is the last character or the
    last but one followed by \<^verbatim>\<open>=\<close>;
  \<^item> \<^verbatim>\<open>isHexadecimal\<close>: the pattern \<^verbatim>\<open>/^(0x|0h)?[0-9A-F]+$/i\<close>;
  \<^item> \<^verbatim>\<open>Matches\<close>: the patterns \<^verbatim>\<open>^[0-9]+\.[0-9]+\.[0-9]+$\<close> and \<^verbatim>\<open>^v[0-9]+$\<close>;
  \<^item> \<^verbatim>\<open>IsNotEmpty\<close>: the value is none of \<^verbatim>\<open>""\<close>, \<^verbatim>\<open>null\<close>, \<^verbatim>\<open>undefined\<close>.
\<close>

definition isDigit :: "code_unit \<Rightarrow> bool" where
  "isDigit c = (0x30 \<le> c \<and> c \<le> 0x39)"

definition isUpper :: "code_unit \<Rightarrow> bool" where
  "isUpper c = (0x41 \<le> c \<and> c \<le> 0x5A)"

definition isLower :: "code_unit \<Rightarrow> bool" where
  "isLower c = (0x61 \<le> c \<and> c \<le> 0x7A)"

definition isBase64Char :: "code_unit \<Rightarrow> bool" where
  "isBase64Char c = (isUpper c \<or> isLower c \<or> isDigit c \<or> c = 0x2B \<or> c = 0x2F \<or> c = 0x3D)"

definition isHexChar :: "code_unit \<Rightarrow> bool" where
  "isHexChar c = (isDigit c \<or> (0x41 \<le> c \<and> c \<le> 0x46) \<or> (0x61 \<le> c \<and> c \<le> 0x66))"

fun indexOf :: "jsstring \<Rightarrow> code_unit \<Rightarrow> nat option" where
  "indexOf [] c = None"
| "indexOf (x # xs) c = (if x = c then Some 0 else map_option Suc (indexOf xs c))"

definition isBase64 :: "jsstring \<Rightarrow> bool" where
  "isBase64 s =
     (let len = length s in
      if len mod 4 \<noteq> 0 \<or> \<not> list_all isBase64Char s then False
      else (case indexOf s 0x3D of
              None \<Rightarrow> True
            | Some firstPaddingChar \<Rightarrow>
                firstPaddingChar + 1 = len \<or>
                (firstPaddingChar + 2 = len \<and> s ! (len - 1) = 0x3D)))"

definition hexDigits :: "jsstring \<Rightarrow> bool" where
  "hexDigits s = (s \<noteq> [] \<and> list_all isHexChar s)"

definition isHexadecimal :: "jsstring \<Rightarrow> bool" where
  "isHexadecimal s =
     (hexDigits s \<or>
      (take 2 s \<in> {str ''0x'', str ''0X'', str ''0h'', str ''0H''} \<and> hexDigits (drop 2 s)))"

definition digits :: "jsstring \<Rightarrow> bool" where
  "digits s = (s \<noteq> [] \<and> list_all isDigit s)"

text \<open>\<^verbatim>\<open>^[0-9]+\.[0-9]+\.[0-9]+$\<close>: three runs of digits with a dot between them.\<close>

definition matchesPluginVersion :: "jsstring \<Rightarrow> bool" where
  "matchesPluginVersion s =
     (let a = takeWhile isDigit s; r = dropWhile isDigit s;
          b = takeWhile isDigit (drop 1 r); r' = dropWhile isDigit (drop 1 r);
          c = drop 1 r'
      in a \<noteq> [] \<and> take 1 r = str ''.'' \<and> b \<noteq> [] \<and> take 1 r' = str ''.'' \<and> digits c)"

text \<open>\<^verbatim>\<open>^v[0-9]+$\<close>.\<close>

definition matchesCryptoVersion :: "jsstring \<Rightarrow> bool" where
  "matchesCryptoVersion s = (take 1 s = str ''v'' \<and> digits (drop 1 s))"

text \<open>
  The decorators on a property: each tests that the value is a string before it calls
  \<^verbatim>\<open>validator.js\<close>, and \<^verbatim>\<open>@ValidateIf((o) => o.p != null)\<close> skips the decorators
  of a property that is \<^verbatim>\<open>null\<close> or \<^verbatim>\<open>undefined\<close>.
\<close>

definition IsBase64 :: "jsvalue \<Rightarrow> bool" where
  "IsBase64 v = (case v of Str s \<Rightarrow> isBase64 s | _ \<Rightarrow> False)"

definition IsNotEmpty :: "jsvalue \<Rightarrow> bool" where
  "IsNotEmpty v = (v \<noteq> Str [] \<and> v \<noteq> Null \<and> v \<noteq> Undefined)"

definition IsHexadecimal :: "jsvalue \<Rightarrow> bool" where
  "IsHexadecimal v = (case v of Str s \<Rightarrow> isHexadecimal s | _ \<Rightarrow> False)"

definition Matches :: "(jsstring \<Rightarrow> bool) \<Rightarrow> jsvalue \<Rightarrow> bool" where
  "Matches pattern v = (case v of Str s \<Rightarrow> pattern s | _ \<Rightarrow> False)"

definition ValidateIf_not_null :: "jsvalue \<Rightarrow> bool" where
  "ValidateIf_not_null v = (v \<noteq> Null \<and> v \<noteq> Undefined)"

text \<open>
  \<^verbatim>\<open>validateOrReject\<close> rejects with the list of the failed constraints, each named by
  its property and its decorator, and resolves when the list is empty.
\<close>

type_synonym ValidationError = "string \<times> string"

definition validateOrReject :: "NotePostRequest \<Rightarrow> ValidationError list" where
  "validateOrReject r =
     (if IsBase64 (ciphertext r) then [] else [(''ciphertext'', ''isBase64'')]) @
     (if IsNotEmpty (ciphertext r) then [] else [(''ciphertext'', ''isNotEmpty'')]) @
     (if IsBase64 (hmac r) then [] else [(''hmac'', ''isBase64'')]) @
     (if IsNotEmpty (hmac r) then [] else [(''hmac'', ''isNotEmpty'')]) @
     (if ValidateIf_not_null (user_id r) \<and> \<not> IsHexadecimal (user_id r)
      then [(''user_id'', ''isHexadecimal'')] else []) @
     (if ValidateIf_not_null (plugin_version r)
         \<and> \<not> Matches matchesPluginVersion (plugin_version r)
      then [(''plugin_version'', ''matches'')] else []) @
     (if Matches matchesCryptoVersion (crypto_version r) then []
      else [(''crypto_version'', ''matches'')])"

section \<open>Notes, audit events and the state of the service\<close>

text \<open>
  \<^verbatim>\<open>EncryptedNote\<close> is the stored row; \<open>NoteInput\<close> is the object of lines 77-82,
  whose \<^verbatim>\<open>as string\<close> and \<^verbatim>\<open>as EncryptedNote\<close> are casts of the type checker only.
  Times are milliseconds since the epoch, as the value of a JavaScript \<^verbatim>\<open>Date\<close>.
\<close>

record EncryptedNote =
  id' :: jsstring
  insert_time :: int
  expire_time :: int
  note_ciphertext :: jsstring
  note_hmac :: jsstring
  note_crypto_version :: jsstring

record NoteInput =
  in_ciphertext :: jsvalue
  in_hmac :: jsvalue
  in_expire_time :: int
  in_crypto_version :: jsvalue

text \<open>
  The text of an error: the printed list of failed constraints
  (\<^verbatim>\<open>err.toString()\<close> of line 59, kept as the list), or a message.
\<close>

datatype ErrorText = ValidationErrors "ValidationError list" | Message jsstring

datatype EventType = READ | WRITE | PURGE

record WriteEvent =
  success :: bool
  host :: jsstring
  event_user_id :: jsvalue
  user_plugin_version :: jsvalue
  note_id :: "jsstring option"
  size_bytes :: "nat option"
  expire_window_days :: "nat option"
  error :: "ErrorText option"

record State =
  stored_notes :: "EncryptedNote list"
  tombstones :: "jsstring set"
  events :: "(EventType \<times> WriteEvent) list"

text \<open>
  Modelled from the spec: \<^verbatim>\<open>EventLogger.writeEvent\<close> (\<^verbatim>\<open>logging/EventLogger\<close>) is
  missing. Section 4.5: \<^verbatim>\<open>record(event)\<close> is append-only and loses no event; the
  entry carries its type, here WRITE.
\<close>

definition writeEvent :: "WriteEvent \<Rightarrow> State \<Rightarrow> State" where
  "writeEvent event st = st\<lparr>events := events st @ [(WRITE, event)]\<rparr>"

text \<open>
  Modelled from the spec: \<^verbatim>\<open>addDays\<close> (\<^verbatim>\<open>util\<close>) is missing. Section 3: the expiry
  time is the creation timestamp plus the retention window, a day being 86400000 ms.
\<close>

definition addDays :: "int \<Rightarrow> nat \<Rightarrow> int" where
  "addDays date days = date + int days * 86400000"

text \<open>
  What one request finds outside the controller: the clock of \<^verbatim>\<open>new Date()\<close>, the
  environment variable \<^verbatim>\<open>FRONTEND_URL\<close>, and for the store its own clock, the random
  12-character portions that the identifier codec draws, one for each attempt, and the
  error of the persistence layer, if it fails.
\<close>

record World =
  now :: int
  FRONTEND_URL :: jsstring
  store_clock :: int
  random_portions :: "jsstring list"
  storage_error :: "jsstring option"

text \<open>
  Modelled from the spec: \<^verbatim>\<open>createNote\<close> (\<^verbatim>\<open>db/note.dao\<close>) is missing. Section 4.2:
  \<^verbatim>\<open>create\<close> assigns a fresh identifier from the codec, retrying on a uniqueness
  conflict a bounded number of times before it fails as IdentifierExhausted, persists
  the note, and returns the stored note with the timestamps of the store; an error of
  the persistence layer propagates. A note whose ciphertext, hmac or crypto version is
  not a string is not a row.
\<close>

definition createNote ::
  "World \<Rightarrow> EncryptedNote list \<Rightarrow> NoteInput \<Rightarrow> jsstring + (EncryptedNote \<times> EncryptedNote list)"
where
  "createNote w rows note =
     (case storage_error w of
        Some e \<Rightarrow> Inl e
      | None \<Rightarrow>
          (case (in_ciphertext note, in_hmac note, in_crypto_version note) of
             (Str c, Str h, Str v) \<Rightarrow>
               (case find (\<lambda>i. i \<notin> set (map id' rows)) (map withChecksum (random_portions w)) of
                  None \<Rightarrow> Inl (str ''IdentifierExhausted'')
                | Some i \<Rightarrow>
                    let savedNote =
                      \<lparr>id' = i, insert_time = store_clock w, expire_time = in_expire_time note,
                       note_ciphertext = c, note_hmac = h,
                       note_crypto_version = v\<rparr>
                    in Inr (savedNote, rows @ [savedNote]))
           | _ \<Rightarrow> Inl (str ''Argument missing'')))"

section \<open>The write controller\<close>

text \<open>
  \<^verbatim>\<open>postNoteController\<close> (lines 41-102). \<open>connecting_ip\<close> is the result of
  \<^verbatim>\<open>getConnectingIp(req)\<close>. The response is what the controller does with \<^verbatim>\<open>res\<close>
  and \<^verbatim>\<open>next\<close>: \<^verbatim>\<open>res.status(n).send(text)\<close>, \<^verbatim>\<open>res.json\<close> of the view URL and the
  expiry time (status 200, the default of Express) or \<^verbatim>\<open>next(err)\<close>. The truth test
  of line 67 is false for \<^verbatim>\<open>undefined\<close>, \<^verbatim>\<open>null\<close> and the empty string; a
  \<^verbatim>\<open>user_id\<close> of another type does not reach it, \<^verbatim>\<open>@IsHexadecimal\<close> having rejected
  the body.
\<close>

record Request =
  body :: Body
  connecting_ip :: jsstring

datatype Response =
    Send nat ErrorText
  | Json jsstring int
  | Next ErrorText
  | JsonNote EncryptedNote

definition EXPIRE_WINDOW_DAYS :: nat where
  "EXPIRE_WINDOW_DAYS = 30"

definition postNoteController :: "World \<Rightarrow> Request \<Rightarrow> State \<Rightarrow> Response \<times> State" where
  "postNoteController w req st =
     (let event = \<lparr>success = False, host = connecting_ip req,
                   event_user_id = body_user_id (body req),
                   user_plugin_version = body_plugin_version (body req),
                   note_id = None, size_bytes = None, expire_window_days = None,
                   error = None\<rparr>;
          notePostRequest = assign (body req)
      in case validateOrReject notePostRequest of
           e # es \<Rightarrow>
             (Send 400 (ValidationErrors (e # es)),
              writeEvent (event\<lparr>error := Some (ValidationErrors (e # es))\<rparr>) st)
         | [] \<Rightarrow>
             if (case user_id notePostRequest of
                   Str u \<Rightarrow> u \<noteq> [] \<and> \<not> checkId u
                 | Undefined \<Rightarrow> False
                 | Null \<Rightarrow> False
                 | NonString \<Rightarrow> False)
             then
               (Send 400 (Message (str ''Invalid user id (checksum failed)'')),
                writeEvent
                  (event\<lparr>error := Some (Message (str ''Invalid user id (checksum failed)''))\<rparr>)
                  st)
             else
               let note = \<lparr>in_ciphertext = ciphertext notePostRequest,
                           in_hmac = hmac notePostRequest,
                           in_expire_time = addDays (now w) EXPIRE_WINDOW_DAYS,
                           in_crypto_version = crypto_version notePostRequest\<rparr>
               in case createNote w (stored_notes st) note of
                    Inr (savedNote, rows) \<Rightarrow>
                      (Json (FRONTEND_URL w @ str ''/note/'' @ id' savedNote)
                            (expire_time savedNote),
                       writeEvent
                         (event\<lparr>success := True, note_id := Some (id' savedNote),
                                 size_bytes := Some (length (note_ciphertext savedNote)
                                                     + length (note_hmac savedNote)),
                                 expire_window_days := Some EXPIRE_WINDOW_DAYS\<rparr>)
                         (st\<lparr>stored_notes := rows\<rparr>))
                  | Inl err \<Rightarrow>
                      (Next (Message err),
                       writeEvent (event\<lparr>error := Some (Message err)\<rparr>) st))"

text \<open>
  Names for the proofs: a request is \<open>accepted\<close> when it passes both checks of
  lines 53-73, and \<open>noteOf\<close> is the note object that the controller then builds.
\<close>

definition accepted :: "Request \<Rightarrow> bool" where
  "accepted req =
     (validateOrReject (assign (body req)) = [] \<and>
      (case user_id (assign (body req)) of
         Str u \<Rightarrow> u = [] \<or> checkId u
       | _ \<Rightarrow> True))"

definition noteOf :: "World \<Rightarrow> Request \<Rightarrow> NoteInput" where
  "noteOf w req =
     \<lparr>in_ciphertext = ciphertext (assign (body req)),
      in_hmac = hmac (assign (body req)),
      in_expire_time = addDays (now w) EXPIRE_WINDOW_DAYS,
      in_crypto_version = crypto_version (assign (body req))\<rparr>"

text \<open>
  A \<^verbatim>\<open>user_id\<close> passes the identifier check when it is a string that
  \<^verbatim>\<open>checkId\<close> accepts.
\<close>

definition passesCheckId :: "jsvalue \<Rightarrow> bool" where
  "passesCheckId v = (case v of Str u \<Rightarrow> checkId u | _ \<Rightarrow> False)"

text \<open>
  The condition as the specification words it (section 6): a \<^verbatim>\<open>user_id\<close> passes
  the identifier-checksum scheme of section 4.1 when it is a string that satisfies the
  three conditions of \<open>validate_spec\<close>.
\<close>

definition passesSection41 :: "jsvalue \<Rightarrow> bool" where
  "passesSection41 v = (case v of Str u \<Rightarrow> validate_spec u | _ \<Rightarrow> False)"

section \<open>An example: the note of the acceptance test\<close>

text \<open>
  \<^verbatim>\<open>testNote\<close> of \<^verbatim>\<open>app.integration.test.ts\<close>: the base64 encodings of
  \<^verbatim>\<open>sample_ciphertext\<close> and \<^verbatim>\<open>sample_hmac\<close>, sent to an empty service; and the same
  note sent with a user id whose checksum is wrong.
\<close>

definition testNote :: Body where
  "testNote =
     \<lparr>body_ciphertext = Str (str ''c2FtcGxlX2NpcGhlcnRleHQ=''),
      body_hmac = Str (str ''c2FtcGxlX2htYWM=''),
      body_user_id = Undefined, body_plugin_version = Undefined,
      body_crypto_version = Undefined\<rparr>"

definition testRequest :: Request where
  "testRequest = \<lparr>body = testNote, connecting_ip = str ''127.0.0.1''\<rparr>"

definition badUserRequest :: Request where
  "badUserRequest =
     \<lparr>body = testNote\<lparr>body_user_id := Str (str ''0123456789abdab9'')\<rparr>,
      connecting_ip = str ''127.0.0.1''\<rparr>"

text \<open>
  The same note sent with a user id whose first twelve characters are upper-case
  hexadecimal and whose last four are their CRC-16.
\<close>

definition upperUserRequest :: Request where
  "upperUserRequest =
     \<lparr>body = testNote\<lparr>body_user_id := Str (str ''ABCDEF012345c2e0'')\<rparr>,
      connecting_ip = str ''127.0.0.1''\<rparr>"

definition testWorld :: World where
  "testWorld =
     \<lparr>now = 1000, FRONTEND_URL = str ''http://localhost'', store_clock = 1002,
      random_portions = [str ''0123456789ab''], storage_error = None\<rparr>"

definition emptyState :: State where
  "emptyState = \<lparr>stored_notes = [], tombstones = {}, events = []\<rparr>"

text \<open>The row that the store then holds.\<close>

definition testSaved :: EncryptedNote where
  "testSaved =
     \<lparr>id' = str ''0123456789abdab8'', insert_time = 1002, expire_time = 2592001000,
      note_ciphertext = str ''c2FtcGxlX2NpcGhlcnRleHQ='', note_hmac = str ''c2FtcGxlX2htYWM='',
      note_crypto_version = str ''v1''\<rparr>"

text \<open>
  Modelled from the spec: the error handler that answers after \<^verbatim>\<open>next(err)\<close> is
  missing. Section 7: a storage failure is answered with a 5xx status, here 500, the
  status of the default error handler of Express. The other responses carry their
  status code.
\<close>

fun status :: "Response \<Rightarrow> nat" where
  "status (Send n _) = n"
| "status (Json _ _) = 200"
| "status (JsonNote _) = 200"
| "status (Next _) = 500"

section \<open>The read path and the expiry sweeper\<close>

text \<open>
  Modelled from the spec: the read of the Note Store and the read controller
  (\<^verbatim>\<open>GET /api/note/:id\<close>) are missing. Section 4.2: \<^verbatim>\<open>read\<close> first applies the
  validation of the identifier codec, a syntactically invalid id being NotFound, not Gone;
  then it looks the id up. A note that is present is returned, also when its
  \<^verbatim>\<open>expire_time\<close> has passed and the sweeper has not run; an absent id is Gone when it
  has a tombstone and NotFound otherwise.
\<close>

datatype ReadResult = Found EncryptedNote | Gone | NotFound

definition read :: "State \<Rightarrow> jsstring \<Rightarrow> ReadResult" where
  "read st i =
     (if \<not> validate_spec i then NotFound
      else case find (\<lambda>n. id' n = i) (stored_notes st) of
             Some n \<Rightarrow> Found n
           | None \<Rightarrow> if i \<in> tombstones st then Gone else NotFound)"

text \<open>
  Modelled from the spec: sections 6 and 7. A note is answered with 200 and logged as a
  successful READ with the sum of the lengths of ciphertext and hmac; Gone is answered
  with 410 and NotFound with 404, each logged as a failed READ with its reason.
\<close>

definition readEvent :: "jsstring \<Rightarrow> jsstring \<Rightarrow> WriteEvent" where
  "readEvent ip i =
     \<lparr>success = False, host = ip, event_user_id = Undefined,
      user_plugin_version = Undefined,
      note_id = Some i, size_bytes = None, expire_window_days = None, error = None\<rparr>"

definition logEvent :: "EventType \<Rightarrow> WriteEvent \<Rightarrow> State \<Rightarrow> State" where
  "logEvent ty event st = st\<lparr>events := events st @ [(ty, event)]\<rparr>"

definition getNoteController :: "jsstring \<Rightarrow> jsstring \<Rightarrow> State \<Rightarrow> Response \<times> State" where
  "getNoteController ip i st =
     (case read st i of
        Found n \<Rightarrow>
          (JsonNote n,
           logEvent READ
             ((readEvent ip i)\<lparr>success := True,
                                size_bytes := Some (length (note_ciphertext n)
                                                    + length (note_hmac n))\<rparr>) st)
      | Gone \<Rightarrow>
          (Send 410 (Message (str ''Gone'')),
           logEvent READ ((readEvent ip i)\<lparr>error := Some (Message (str ''Gone''))\<rparr>) st)
      | NotFound \<Rightarrow>
          (Send 404 (Message (str ''Not found'')),
           logEvent READ ((readEvent ip i)\<lparr>error := Some (Message (str ''Not found''))\<rparr>) st))"

text \<open>
  Modelled from the spec: \<^verbatim>\<open>deleteExpiredNotes\<close> (\<^verbatim>\<open>tasks/deleteExpiredNotes\<close>) is
  missing. Sections 4.2 and 4.3: the sweep selects all notes whose \<^verbatim>\<open>expire_time\<close> is
  at or before the current time, deletes them, writes a tombstone for each deleted id,
  emits one PURGE event for each deleted note, with \<^verbatim>\<open>note_id\<close>, \<^verbatim>\<open>success = true\<close>
  and \<^verbatim>\<open>size_bytes\<close> from the stored lengths, and returns the count.
\<close>

definition purgeEvent :: "EncryptedNote \<Rightarrow> EventType \<times> WriteEvent" where
  "purgeEvent n =
     (PURGE,
      \<lparr>success = True, host = [], event_user_id = Undefined,
       user_plugin_version = Undefined,
       note_id = Some (id' n),
       size_bytes = Some (length (note_ciphertext n) + length (note_hmac n)),
       expire_window_days = None, error = None\<rparr>)"

definition deleteExpiredNotes :: "int \<Rightarrow> State \<Rightarrow> nat \<times> State" where
  "deleteExpiredNotes t st =
     (let expired = filter (\<lambda>n. expire_time n \<le> t) (stored_notes st)
      in (length expired,
          st\<lparr>stored_notes := filter (\<lambda>n. \<not> expire_time n \<le> t) (stored_notes st),
             tombstones := tombstones st \<union> set (map id' expired),
             events := events st @ map purgeEvent expired\<rparr>))"

text \<open>The PURGE events of the log that are about one id.\<close>

definition purgeEventsOf :: "jsstring \<Rightarrow> State \<Rightarrow> WriteEvent list" where
  "purgeEventsOf i st =
     map snd (filter (\<lambda>(ty, e). ty = PURGE \<and> note_id e = Some i) (events st))"

text \<open>
  The note of the acceptance test \<^verbatim>\<open>removes expired notes\<close>: \<^verbatim>\<open>testNote\<close> stored
  with \<^verbatim>\<open>expire_time = new Date(0)\<close>.
\<close>

definition expiredNote :: EncryptedNote where
  "expiredNote =
     \<lparr>id' = str ''0123456789abdab8'', insert_time = 900, expire_time = 0,
      note_ciphertext = str ''c2FtcGxlX2NpcGhlcnRleHQ='', note_hmac = str ''c2FtcGxlX2htYWM='',
      note_crypto_version = str ''v1''\<rparr>"

definition expiredState :: State where
  "expiredState = \<lparr>stored_notes = [expiredNote], tombstones = {}, events = []\<rparr>"

section \<open>The rate limiter\<close>

text \<open>
  Modelled from the spec: the rate limiter, which the application puts in front of both
  controllers, is missing. Section 4.4: \<^verbatim>\<open>allow(clientKey, operationClass)\<close> is consulted
  before the Note Store is invoked; the quotas are independent per operation class and
  per client key, the key being the caller's network address; the budget is a fixed
  number of requests per window, here a fixed window that opens with the first request
  counted in it, and the state resets after the window has elapsed. Section 5: the
  counters are updated atomically, so the requests of a burst are counted one after
  the other.
\<close>

datatype OperationClass = ReadOp | WriteOp

record Limits =
  budget :: "OperationClass \<Rightarrow> nat"
  window :: int

type_synonym ClientKey = "jsstring \<times> OperationClass"
type_synonym Counters = "ClientKey \<Rightarrow> (int \<times> nat) option"

definition allow :: "Limits \<Rightarrow> int \<Rightarrow> ClientKey \<Rightarrow> Counters \<Rightarrow> bool \<times> Counters" where
  "allow lim t k c =
     (let (start, used) =
            (case c k of
               None \<Rightarrow> (t, 0)
             | Some (s, u) \<Rightarrow> if t < s + window lim then (s, u) else (t, 0))
      in if used < budget lim (snd k) then (True, c(k \<mapsto> (start, used + 1)))
         else (False, c(k \<mapsto> (start, used))))"

text \<open>
  Modelled from the spec: the two endpoints behind the limiter. Sections 6 and 7: a
  rejection is answered with 429, and it is logged when the subject id is known before
  the limiter runs, which is the case of a read.
\<close>

datatype Call = PostNote World Request | GetNote jsstring jsstring

fun clientKey :: "Call \<Rightarrow> ClientKey" where
  "clientKey (PostNote w req) = (connecting_ip req, WriteOp)"
| "clientKey (GetNote ip i) = (ip, ReadOp)"

fun controller :: "Call \<Rightarrow> State \<Rightarrow> Response \<times> State" where
  "controller (PostNote w req) st = postNoteController w req st"
| "controller (GetNote ip i) st = getNoteController ip i st"

definition tooManyRequests :: Response where
  "tooManyRequests = Send 429 (Message (str ''Too many requests''))"

fun logRejection :: "Call \<Rightarrow> State \<Rightarrow> State" where
  "logRejection (PostNote w req) st = st"
| "logRejection (GetNote ip i) st =
     logEvent READ ((readEvent ip i)\<lparr>error := Some (Message (str ''Too many requests''))\<rparr>) st"

text \<open>
  Modelled from the spec: one request at time \<open>t\<close> passes the limiter before its
  controller runs (section 2); the result is the answer, with the decision of the
  limiter, and the new counters and state. \<open>serve\<close> handles the requests of a list
  in their order.
\<close>

definition handle ::
  "Limits \<Rightarrow> int \<Rightarrow> Call \<Rightarrow> Counters \<times> State \<Rightarrow> (bool \<times> Response) \<times> (Counters \<times> State)"
where
  "handle lim t call cs =
     (case allow lim t (clientKey call) (fst cs) of
        (True, c) \<Rightarrow>
          (case controller call (snd cs) of (r, st) \<Rightarrow> ((True, r), (c, st)))
      | (False, c) \<Rightarrow> ((False, tooManyRequests), (c, logRejection call (snd cs))))"

fun serve :: "Limits \<Rightarrow> (int \<times> Call) list \<Rightarrow> Counters \<times> State \<Rightarrow> (bool \<times> Response) list" where
  "serve lim [] cs = []"
| "serve lim ((t, call) # rest) cs =
     (case handle lim t call cs of (r, cs') \<Rightarrow> r # serve lim rest cs')"

definition statuses :: "(bool \<times> Response) list \<Rightarrow> nat list" where
  "statuses rs = map (\<lambda>(admitted, r). status r) rs"

text \<open>
  The counter of a client is idle at time \<open>t\<close> when the client has none yet, or when
  the window of the one it has has elapsed.
\<close>

definition idle :: "Limits \<Rightarrow> Counters \<Rightarrow> ClientKey \<Rightarrow> int \<Rightarrow> bool" where
  "idle lim c k t = (case c k of None \<Rightarrow> True | Some (s, u) \<Rightarrow> s + window lim \<le> t)"

text \<open>
  A list of requests is well formed, for the ids \<open>present\<close> in the store and the ids
  \<open>used\<close> so far, when each read names a valid id of a note that the store holds, and
  each write passes the two checks of the write controller, meets a persistence layer
  that does not fail, and draws as its first random portion one whose identifier is in
  use neither in the store nor by an earlier write of the list.
\<close>

fun wellFormed :: "jsstring list \<Rightarrow> jsstring list \<Rightarrow> (int \<times> Call) list \<Rightarrow> bool" where
  "wellFormed present used [] = True"
| "wellFormed present used ((t, GetNote ip i) # rest) =
     (validate_spec i \<and> i \<in> set present \<and> wellFormed present used rest)"
| "wellFormed present used ((t, PostNote w req) # rest) =
     (accepted req \<and> storage_error w = None \<and>
      (case random_portions w of
         [] \<Rightarrow> False
       | p # ps \<Rightarrow> withChecksum p \<notin> set used
                  \<and> wellFormed present (withChecksum p # used) rest))"

text \<open>
  A burst of three reads of the stored note of the acceptance test by one client, with
  a budget of two requests in a window of one second; and a burst of three writes of
  the note of the acceptance test, the persistence layer failing at the second.
\<close>

definition failingWorld :: World where
  "failingWorld = testWorld\<lparr>storage_error := Some (str ''Error: connection lost'')\<rparr>"

definition failingBurst :: "(int \<times> Call) list" where
  "failingBurst =
     [(5000, PostNote testWorld testRequest),
      (5001, PostNote failingWorld testRequest),
      (5002, PostNote testWorld testRequest)]"


definition testLimits :: Limits where
  "testLimits = \<lparr>budget = (\<lambda>cls. 2), window = 1000\<rparr>"

definition testBurst :: "(int \<times> Call) list" where
  "testBurst =
     [(5000, GetNote (str ''127.0.0.1'') (str ''0123456789abdab8'')),
      (5001, GetNote (str ''127.0.0.1'') (str ''0123456789abdab8'')),
      (5002, GetNote (str ''127.0.0.1'') (str ''0123456789abdab8''))]"

text \<open>
  A burst of three writes of that note for which the codec draws three different random
  portions and the persistence layer does not fail.
\<close>

definition secondWorld :: World where
  "secondWorld = testWorld\<lparr>random_portions := [str ''a1b2c3d4e5f6'']\<rparr>"

definition thirdWorld :: World where
  "thirdWorld = testWorld\<lparr>random_portions := [str ''fedcba987654'']\<rparr>"

definition writeBurst :: "(int \<times> Call) list" where
  "writeBurst =
     [(5000, PostNote testWorld testRequest),
      (5001, PostNote secondWorld testRequest),
      (5002, PostNote thirdWorld testRequest)]"

section \<open>Properties of the identifier check\<close>

subsection \<open>Rendering the checksum\<close>

lemma unat_hexDigit: "d < 16 \<Longrightarrow> unat (hexDigit d) = (if d < 10 then 48 + d else 87 + d)"
  unfolding hexDigit_def by (simp only: unat_of_nat if_distrib [of unat]) simp

lemma hexDigit_lower: "d < 16 \<Longrightarrow> isLowerHex (hexDigit d)"
  by (simp add: isLowerHex_def word_le_nat_alt unat_hexDigit)

lemma hex4_lower: "list_all isLowerHex (hex4 n)"
  by (simp add: hex4_def hexDigit_lower)

lemma length_hex4: "length (hex4 n) = 4" by (simp add: hex4_def)

lemma toString16_small: "n < 16 \<Longrightarrow> toString16 n = [hexDigit n]"
  by (subst toString16.simps) simp

lemma toString16_big: "16 \<le> n \<Longrightarrow> toString16 n = toString16 (n div 16) @ [hexDigit (n mod 16)]"
  by (subst toString16.simps) simp

lemma zero_pad: "str ''0'' = [hexDigit 0]" by (simp add: str_def hexDigit_def)

lemma padStart4:
  "padStart [a] 4 [z] = [z, z, z, a]"
  "padStart [a, b] 4 [z] = [z, z, a, b]"
  "padStart [a, b, c] 4 [z] = [z, a, b, c]"
  "padStart [a, b, c, d] 4 [z] = [a, b, c, d]"
  by (simp_all add: padStart_def eval_nat_numeral)

lemma toString16_padStart:
  assumes "n < 65536"
  shows "padStart (toString16 n) 4 (str ''0'') = hex4 n"
proof -
  consider "n < 16" | "16 \<le> n" "n < 256" | "256 \<le> n" "n < 4096" | "4096 \<le> n"
    by linarith
  then show ?thesis
  proof cases
    case 1
    then show ?thesis
      by (simp add: toString16_small padStart4 zero_pad hex4_def)
  next
    case 2
    then have "n div 16 < 16" by simp
    with 2 show ?thesis
      by (simp add: toString16_small toString16_big padStart4 zero_pad hex4_def)
  next
    case 3
    then have a: "n div 16 div 16 < 16" "16 \<le> n div 16" by simp_all
    have b: "n div 256 = n div 16 div 16" by (simp add: div_mult2_eq)
    have c: "n div 4096 = 0" using 3 by simp
    from 3 a show ?thesis
      by (simp add: toString16_small toString16_big padStart4 zero_pad hex4_def b c)
  next
    case 4
    with assms have a: "n div 16 div 16 div 16 < 16" "16 \<le> n div 16" "16 \<le> n div 16 div 16" by simp_all
    have b: "n div 256 = n div 16 div 16" "n div 4096 = n div 16 div 16 div 16" by (simp_all add: div_mult2_eq)
    from 4 a show ?thesis
      by (simp add: toString16_small toString16_big padStart4 zero_pad hex4_def b)
  qed
qed

lemma crc16_bound: "crc16 s < 65536"
  using unsigned_less [of "crc_bytes 0 (utf8 s)", where ?'a = nat] by (simp add: crc16_def)

lemma checkId_iff:
  "checkId i \<longleftrightarrow> length i = 16 \<and> drop 12 i = hex4 (crc16 (take 12 i))"
  by (auto simp: checkId_def slice_def Let_def toString16_padStart crc16_bound)

subsection \<open>The CRC detects the change of one byte\<close>

lemma crc_byte_unfold: "crc_byte c b = crc_step (crc_step (crc_step (crc_step (crc_step (crc_step (crc_step (crc_step (c XOR ucast b))))))))"
  by (simp add: crc_byte_def eval_nat_numeral)

lemma drop1_eq:
  fixes a b :: "16 word"
  assumes "bit a 0 = bit b 0" and "drop_bit 1 a = drop_bit 1 b"
  shows "a = b"
proof (rule bit_word_eqI)
  fix n
  show "bit a n = bit b n"
  proof (cases n)
    case 0 then show ?thesis using assms(1) by simp
  next
    case (Suc m)
    have "bit (drop_bit 1 a) m = bit (drop_bit 1 b) m" using assms(2) by simp
    then show ?thesis unfolding bit_drop_bit_eq using Suc by simp
  qed
qed

lemma poly_top: "bit (0xA001::16 word) 15" by simp

lemma drop1_top: "\<not> bit (drop_bit 1 (b::16 word)) 15" 
  using bit_imp_le_length[of b 16] by (auto simp add: bit_drop_bit_eq)

lemma step_branches_differ: "drop_bit 1 (a::16 word) XOR 0xA001 \<noteq> drop_bit 1 b"
proof
  assume "drop_bit 1 a XOR 0xA001 = drop_bit 1 b"
  then have "bit (drop_bit 1 a XOR 0xA001) 15 = bit (drop_bit 1 b) 15" by (rule arg_cong)
  then show False unfolding bit_xor_iff using poly_top drop1_top by blast
qed

lemma xor_cancel: "(x::16 word) XOR k = y XOR k \<Longrightarrow> x = y"
proof -
  assume "x XOR k = y XOR k"
  then have "(x XOR k) XOR k = (y XOR k) XOR k" by simp
  then show ?thesis by (simp add: xor.assoc)
qed

lemma xor_cancel_l: "(k::16 word) XOR x = k XOR y \<Longrightarrow> x = y"
  using xor_cancel [of x k y] by (simp add: xor.commute)

lemma ucast_8_16_inj: "(ucast (a::8 word) :: 16 word) = ucast b \<Longrightarrow> a = b"
proof -
  assume "(ucast a :: 16 word) = ucast b"
  then have "(ucast (ucast a :: 16 word) :: 8 word) = ucast (ucast b :: 16 word)" by simp
  then show ?thesis by (simp add: ucast_up_ucast is_up)
qed

lemma crc_step_odd: "bit c 0 \<Longrightarrow> crc_step c = drop_bit 1 c XOR 0xA001"
  unfolding crc_step_def by (simp only: if_True)

lemma crc_step_even: "\<not> bit c 0 \<Longrightarrow> crc_step c = drop_bit 1 c"
  unfolding crc_step_def by (simp only: if_False)

lemma crc_step_inj: 
  assumes "crc_step a = crc_step b" shows "a = b"
proof (cases "bit a 0"; cases "bit b 0")
  assume h: "bit a 0" "bit b 0"
  with assms have "drop_bit 1 a XOR 0xA001 = drop_bit 1 b XOR 0xA001"
    by (simp add: crc_step_odd)
  then have "drop_bit 1 a = drop_bit 1 b" by (rule xor_cancel)
  moreover from h have "bit a 0 = bit b 0" by simp
  ultimately show ?thesis by (simp only: drop1_eq)
next
  assume h: "bit a 0" "\<not> bit b 0"
  with assms have "drop_bit 1 a XOR 0xA001 = drop_bit 1 b"
    by (simp add: crc_step_odd crc_step_even)
  with step_branches_differ show ?thesis by blast
next
  assume h: "\<not> bit a 0" "bit b 0"
  with assms have "drop_bit 1 b XOR 0xA001 = drop_bit 1 a"
    by (simp add: crc_step_odd crc_step_even)
  with step_branches_differ show ?thesis by blast
next
  assume h: "\<not> bit a 0" "\<not> bit b 0"
  with assms have "drop_bit 1 a = drop_bit 1 b"
    by (simp add: crc_step_even)
  moreover from h have "bit a 0 = bit b 0" by simp
  ultimately show ?thesis by (simp only: drop1_eq)
qed

lemma crc_byte_inj_state: "crc_byte a x = crc_byte b x \<Longrightarrow> a = b"
  unfolding crc_byte_unfold by (blast dest: crc_step_inj xor_cancel)

lemma crc_byte_inj_byte: "crc_byte c x = crc_byte c y \<Longrightarrow> x = y"
  unfolding crc_byte_unfold by (blast dest: crc_step_inj xor_cancel_l ucast_8_16_inj)

lemma crc_bytes_inj_state: "crc_bytes a bs = crc_bytes b bs \<Longrightarrow> a = b"
  by (induction bs arbitrary: a b) (auto dest: crc_byte_inj_state)

lemma crc_bytes_update:
  "i < length bs \<Longrightarrow> x \<noteq> bs ! i \<Longrightarrow> crc_bytes c (bs[i := x]) \<noteq> crc_bytes c bs"
proof (induction bs arbitrary: i c)
  case Nil
  then show ?case by simp
next
  case (Cons b bs)
  show ?case
  proof (cases i)
    case 0
    with Cons.prems have "x \<noteq> b" by simp
    then have "crc_byte c x \<noteq> crc_byte c b" by (blast dest: crc_byte_inj_byte)
    then have "crc_bytes (crc_byte c x) bs \<noteq> crc_bytes (crc_byte c b) bs"
      by (blast dest: crc_bytes_inj_state)
    with 0 show ?thesis by simp
  next
    case (Suc j)
    with Cons.prems have "j < length bs" "x \<noteq> bs ! j" by simp_all
    from Cons.IH [OF this] Suc show ?thesis by simp
  qed
qed

lemma utf8_ascii: "list_all isAscii s \<Longrightarrow> utf8 s = map ucast s"
  by (induction s) (simp_all add: isAscii_def)

lemma ucast_16_8_inj_ascii:
  fixes u v :: "16 word"
  assumes "u < 0x80" "v < 0x80" "(ucast u :: 8 word) = ucast v"
  shows "u = v"
proof -
  have "unat (ucast u :: 8 word) = unat u" "unat (ucast v :: 8 word) = unat v"
    using assms(1,2) by (simp_all add: unsigned_ucast_eq take_bit_nat_eq_self word_less_nat_alt)
  with assms(3) show ?thesis by (simp add: word_unat_eq_iff)
qed

lemma crc16_update_ascii:
  assumes "list_all isAscii s" "isAscii c" "i < length s" "c \<noteq> s ! i"
  shows "crc16 (s[i := c]) \<noteq> crc16 s"
proof -
  have a: "list_all isAscii (s[i := c])"
    using assms(1,2) by (auto simp: list_all_iff dest: subsetD [OF set_update_subset_insert])
  have "isAscii (s ! i)" using assms(1,3) by (simp add: list_all_length)
  with assms(2,4) have "(ucast c :: 8 word) \<noteq> ucast (s ! i)"
    by (auto simp: isAscii_def dest: ucast_16_8_inj_ascii)
  then have "crc_bytes 0 ((map ucast s)[i := ucast c]) \<noteq> crc_bytes 0 (map ucast s)"
    using assms(3) by (intro crc_bytes_update) simp_all
  then show ?thesis
    using a assms(1) by (simp add: crc16_def utf8_ascii map_update word_unat_eq_iff)
qed

lemma isLowerHex_ascii: "isLowerHex c \<Longrightarrow> isAscii c"
  by (auto simp: isLowerHex_def isAscii_def word_le_nat_alt word_less_nat_alt)

subsection \<open>Generated identifiers and single-character changes\<close>

lemma hexDigit_inj: "a < 16 \<Longrightarrow> b < 16 \<Longrightarrow> hexDigit a = hexDigit b \<Longrightarrow> a = b"
proof -
  assume h: "a < 16" "b < 16" "hexDigit a = hexDigit b"
  then have "unat (hexDigit a) = unat (hexDigit b)" by simp
  with h(1,2) show ?thesis by (simp add: unat_hexDigit split: if_splits)
qed

lemma div_mod_16_eq: "x div 16 = y div 16 \<Longrightarrow> x mod 16 = y mod 16 \<Longrightarrow> x = y"
  for x y :: nat
  by (metis div_mult_mod_eq)

lemma hex4_inj:
  assumes "a < 65536" "b < 65536" "hex4 a = hex4 b"
  shows "a = b"
proof -
  from assms(3) have
    "hexDigit (a div 4096 mod 16) = hexDigit (b div 4096 mod 16)"
    "hexDigit (a div 256 mod 16) = hexDigit (b div 256 mod 16)"
    "hexDigit (a div 16 mod 16) = hexDigit (b div 16 mod 16)"
    "hexDigit (a mod 16) = hexDigit (b mod 16)"
    by (simp_all add: hex4_def)
  then have d:
    "a div 4096 mod 16 = b div 4096 mod 16" "a div 256 mod 16 = b div 256 mod 16"
    "a div 16 mod 16 = b div 16 mod 16" "a mod 16 = b mod 16"
    by (simp_all add: hexDigit_inj)
  from assms(1,2) have "a div 4096 < 16" "b div 4096 < 16" by simp_all
  with d(1) have "a div 4096 = b div 4096" by simp
  then have "a div 256 div 16 = b div 256 div 16" by (simp add: div_mult2_eq [symmetric])
  then have "a div 256 = b div 256" using d(2) by (rule div_mod_16_eq)
  then have "a div 16 div 16 = b div 16 div 16" by (simp add: div_mult2_eq [symmetric])
  then have "a div 16 = b div 16" using d(3) by (rule div_mod_16_eq)
  then show ?thesis using d(4) by (rule div_mod_16_eq)
qed

lemma checkId_withChecksum: "length p = 12 \<Longrightarrow> checkId (withChecksum p)"
  by (simp add: checkId_iff withChecksum_def length_hex4)

lemma checkId_prefix_changed:
  assumes "length p = 12" "list_all isAscii p" "i < 12" "isAscii c" "c \<noteq> p ! i"
  shows "\<not> checkId ((withChecksum p)[i := c])"
proof
  assume "checkId ((withChecksum p)[i := c])"
  with assms(1,3) have "hex4 (crc16 p) = hex4 (crc16 (p[i := c]))"
    by (simp add: checkId_iff withChecksum_def list_update_append1)
  then have "crc16 p = crc16 (p[i := c])"
    by (rule hex4_inj [OF crc16_bound crc16_bound])
  with crc16_update_ascii [OF assms(2,4) _ assms(5)] assms(1,3) show False by simp
qed

lemma checkId_checksum_changed:
  assumes "length p = 12" "12 \<le> i" "i < 16" "c \<noteq> withChecksum p ! i"
  shows "\<not> checkId ((withChecksum p)[i := c])"
proof
  assume a: "checkId ((withChecksum p)[i := c])"
  from assms(1,2) have u: "(withChecksum p)[i := c] = p @ (hex4 (crc16 p))[i - 12 := c]"
    by (simp add: withChecksum_def list_update_append)
  from a assms(1) have "(hex4 (crc16 p))[i - 12 := c] = hex4 (crc16 p)"
    unfolding u by (simp add: checkId_iff)
  then have "(hex4 (crc16 p))[i - 12 := c] ! (i - 12) = hex4 (crc16 p) ! (i - 12)" by simp
  moreover from assms(2,3) have "i - 12 < length (hex4 (crc16 p))" by (simp add: length_hex4)
  ultimately have "c = hex4 (crc16 p) ! (i - 12)" by simp
  with assms(1,2,4) show False by (simp add: withChecksum_def nth_append)
qed

subsection \<open>Evaluating the codec on a literal\<close>

lemmas codec_eval =
  crc16_def str_def crc_byte_unfold crc_step_def checkId_def slice_def padStart_def
  toString16.simps hexDigit_def cont_byte_def withChecksum_def hex4_def isLowerHex_def
  validate_spec_def isAscii_def

lemma test_world_portion: "withChecksum (str ''0123456789ab'') = str ''0123456789abdab8''"
  by (simp add: codec_eval)

lemma bad_user_id: "\<not> checkId (str ''0123456789abdab9'')"
  by (simp add: codec_eval)

subsection \<open>No operation of the identifier check raises\<close>

lemma numberDigits_16: "numberDigits 16 n = toString16 n"
proof (induction n rule: toString16.induct)
  case (1 n)
  show ?case
  proof (cases "n < 16")
    case True
    then show ?thesis by (simp add: toString16_small numberDigits.simps [of 16 n])
  next
    case False
    with 1 show ?thesis by (simp add: toString16_big numberDigits.simps [of 16 n])
  qed
qed

lemma numberToString_16: "numberToString n 16 = Inr (toString16 n)"
  by (simp add: numberToString_def numberDigits_16)

lemma stringPadStart_4: "stringPadStart s 4 p = Inr (padStart s 4 p)"
  by (simp add: stringPadStart_def padStart_def MAX_STRING_LENGTH_def)

lemma surrogates_rejected:
  "\<not> checkId [0xD800, 0xDC00, 0x15F, 0xD800, 0x20AC, 0xDC00, 0xDC00, 0x0, 0xFFFF, 0x7A, 0xD83D, 0xDE00, 0x30, 0x30, 0x30, 0x30]"
  by (simp add: codec_eval)

section \<open>The identifier check: the claims\<close>

text \<open>
  The check value of CRC-16/ARC: the CRC of the nine ASCII digits \<^verbatim>\<open>123456789\<close> is
  BB3D.
\<close>

lemma crc16_check_value: "crc16 (str ''123456789'') = 0xBB3D"
  by (simp add: codec_eval)

text \<open>
  Claim C2, as the code has it. \<^verbatim>\<open>checkId\<close> returns true exactly when the
  identifier has length 16 and its last 4 characters are the CRC-16 of the first 12,
  rendered as 4 lowercase zero-padded hex digits; the last 4 characters of an accepted
  identifier are therefore lowercase hex. The first 12 characters are not tested: only
  when they are lowercase hex does \<^verbatim>\<open>checkId\<close> agree with the three conditions of
  the specification's \<^verbatim>\<open>validate\<close>.
\<close>

theorem checkId_characterisation:
  "(checkId i \<longleftrightarrow>
      length i = 16 \<and> list_all isLowerHex (drop 12 i) \<and> drop 12 i = hex4 (crc16 (take 12 i)))
   \<and> (list_all isLowerHex (take 12 i) \<longrightarrow> checkId i = validate_spec i)"
proof -
  have a: "drop 12 i = hex4 n \<Longrightarrow> list_all isLowerHex (drop 12 i)" for n
    by (simp add: hex4_lower)
  have "list_all isLowerHex i = (list_all isLowerHex (take 12 i) \<and> list_all isLowerHex (drop 12 i))"
    using list_all_append [of isLowerHex "take 12 i" "drop 12 i"] by simp
  with a show ?thesis unfolding checkId_iff validate_spec_def by blast
qed

theorem checkId_characterisation_witness:
  "list_all isLowerHex (take 12 (str ''0123456789abdab8''))
   \<and> checkId (str ''0123456789abdab8'') \<and> validate_spec (str ''0123456789abdab8'')"
  using checkId_characterisation [of "str ''0123456789abdab8''"]
  by (simp add: codec_eval)

text \<open>
  Claim C2 as stated fails: \<^verbatim>\<open>zzzzzzzzzzzz99ff\<close> has twelve characters that are not
  hexadecimal, and \<^verbatim>\<open>checkId\<close> accepts it, since 99ff is the CRC-16 of the twelve
  \<^verbatim>\<open>z\<close>.
\<close>

theorem checkId_accepts_non_hex:
  "checkId (str ''zzzzzzzzzzzz99ff'') \<and> \<not> list_all isLowerHex (str ''zzzzzzzzzzzz99ff'')
   \<and> \<not> validate_spec (str ''zzzzzzzzzzzz99ff'')"
  by (simp add: codec_eval)

text \<open>
  Claim C5, as the code has it. For a prefix of 12 lowercase hex characters, the
  identifier formed by appending the rendered CRC-16 passes \<^verbatim>\<open>checkId\<close>; replacing
  one of its 4 checksum characters by any different character, or one of its 12 prefix
  characters by a different character below U+0080 (one byte in UTF-8, so any other hex
  digit), makes \<^verbatim>\<open>checkId\<close> return false.
\<close>

theorem checksum_sensitivity:
  assumes "length p = 12" and "list_all isLowerHex p"
    and "i < 16" and "c \<noteq> withChecksum p ! i" and "i < 12 \<longrightarrow> isAscii c"
  shows "checkId (withChecksum p) \<and> \<not> checkId ((withChecksum p)[i := c])"
proof (intro conjI)
  show "checkId (withChecksum p)" using assms(1) by (rule checkId_withChecksum)
  from assms(2) have ascii: "list_all isAscii p"
    by (simp add: list_all_iff isLowerHex_ascii)
  show "\<not> checkId ((withChecksum p)[i := c])"
  proof (cases "i < 12")
    case True
    with assms(1,4) have "c \<noteq> p ! i" by (simp add: withChecksum_def nth_append)
    with assms(1,5) ascii True show ?thesis by (simp add: checkId_prefix_changed)
  next
    case False
    with assms(1,3,4) show ?thesis by (simp add: checkId_checksum_changed)
  qed
qed

theorem checksum_sensitivity_witness:
  "length (str ''0123456789ab'') = 12 \<and> list_all isLowerHex (str ''0123456789ab'')
   \<and> (5::nat) < 16 \<and> 0x36 \<noteq> withChecksum (str ''0123456789ab'') ! 5 \<and> isAscii 0x36
   \<and> withChecksum (str ''0123456789ab'') = str ''0123456789abdab8''
   \<and> checkId (withChecksum (str ''0123456789ab''))
   \<and> \<not> checkId ((withChecksum (str ''0123456789ab''))[5 := 0x36])"
  using checksum_sensitivity [of "str ''0123456789ab''" 5 "0x36"]
  by (simp add: codec_eval)

text \<open>
  Claim C5 as stated fails for a replacement character that UTF-8 encodes in two bytes:
  \<^verbatim>\<open>0123456789abdab8\<close> is a generated identifier, and with its sixth character
  replaced by U+015F the CRC-16 of the first 12 characters (now 13 bytes) is dab8 again.
\<close>

theorem checksum_collision_non_ascii:
  "length (str ''0123456789ab'') = 12 \<and> list_all isLowerHex (str ''0123456789ab'')
   \<and> checkId (withChecksum (str ''0123456789ab''))
   \<and> 0x15F \<noteq> withChecksum (str ''0123456789ab'') ! 5
   \<and> checkId ((withChecksum (str ''0123456789ab''))[5 := 0x15F])"
  by (simp add: codec_eval)

text \<open>
  Claim C10. On every string, of any length and with any code units, \<^verbatim>\<open>checkId\<close>
  returns a boolean and raises no exception: the radix 16 is one that \<^verbatim>\<open>toString\<close>
  accepts, the padded checksum has 4 characters, far below the longest string, and the
  other operations raise nothing on a string; the boolean is the one that \<open>checkId\<close>
  computes. On a string whose length is not 16 it is false.
\<close>

theorem checkId_total:
  "checkId_raising i = Inr (checkId i)
   \<and> (\<forall>e. checkId_raising i \<noteq> Inl e)
   \<and> (length i \<noteq> 16 \<longrightarrow> checkId_raising i = Inr False)"
proof -
  have "checkId_raising i = Inr (checkId i)"
    by (simp add: checkId_raising_def checkId_def numberToString_16 stringPadStart_4 Let_def)
  moreover have "length i \<noteq> 16 \<longrightarrow> checkId_raising i = Inr False"
    by (simp add: checkId_raising_def)
  ultimately show ?thesis by simp
qed

theorem checkId_total_witness:
  "length (str ''NaN'') \<noteq> 16 \<and> checkId_raising (str ''NaN'') = Inr False
   \<and> checkId_raising (str ''0123456789abdab8'') = Inr True
   \<and> checkId_raising
         [0xD800, 0xDC00, 0x15F, 0xD800, 0x20AC, 0xDC00, 0xDC00, 0x0, 0xFFFF, 0x7A,
          0xD83D, 0xDE00, 0x30, 0x30, 0x30, 0x30]
       = Inr False"
  using checkId_total [of "str ''NaN''"] checkId_total [of "str ''0123456789abdab8''"]
    checkId_total [of "[0xD800, 0xDC00, 0x15F, 0xD800, 0x20AC, 0xDC00, 0xDC00, 0x0, 0xFFFF, 0x7A, 0xD83D, 0xDE00, 0x30, 0x30, 0x30, 0x30]"] surrogates_rejected
  by (simp add: str_def) (simp add: codec_eval)

section \<open>The paths of the write controller\<close>

lemma isHexadecimal_nonempty: "isHexadecimal s \<Longrightarrow> s \<noteq> []"
  by (auto simp: isHexadecimal_def hexDigits_def str_def)

lemma validated_user_id:
  assumes "validateOrReject r = []" and "user_id r = Str u"
  shows "u \<noteq> []"
proof -
  from assms have "isHexadecimal u"
    by (simp add: validateOrReject_def ValidateIf_not_null_def IsHexadecimal_def
        split: if_splits)
  then show ?thesis by (rule isHexadecimal_nonempty)
qed

lemma validated_user_id_string:
  assumes "validateOrReject r = []"
  shows "user_id r \<noteq> NonString"
  using assms
  by (auto simp: validateOrReject_def ValidateIf_not_null_def IsHexadecimal_def
      split: if_splits)

lemma post_validation_failure:
  assumes "validateOrReject (assign (body req)) = e # es"
  shows "postNoteController w req st =
    (Send 400 (ValidationErrors (e # es)),
     st\<lparr>events := events st @
        [(WRITE, \<lparr>success = False, host = connecting_ip req,
                  event_user_id = body_user_id (body req),
                  user_plugin_version = body_plugin_version (body req),
                  note_id = None, size_bytes = None, expire_window_days = None,
                  error = Some (ValidationErrors (e # es))\<rparr>)]\<rparr>)"
  using assms by (simp add: postNoteController_def writeEvent_def)

lemma post_checksum_failure:
  assumes "validateOrReject (assign (body req)) = []"
    and "body_user_id (body req) = Str u" and "\<not> checkId u"
  shows "postNoteController w req st =
    (Send 400 (Message (str ''Invalid user id (checksum failed)'')),
     st\<lparr>events := events st @
        [(WRITE, \<lparr>success = False, host = connecting_ip req,
                  event_user_id = body_user_id (body req),
                  user_plugin_version = body_plugin_version (body req),
                  note_id = None, size_bytes = None, expire_window_days = None,
                  error = Some (Message (str ''Invalid user id (checksum failed)''))\<rparr>)]\<rparr>)"
proof -
  have "user_id (assign (body req)) = Str u" using assms(2) by (simp add: assign_def)
  with assms(1) have "u \<noteq> []" by (rule validated_user_id)
  with assms show ?thesis
    by (simp add: postNoteController_def writeEvent_def assign_def)
qed

lemma post_stored:
  assumes "accepted req"
    and "createNote w (stored_notes st) (noteOf w req) = Inr (savedNote, rows)"
  shows "postNoteController w req st =
    (Json (FRONTEND_URL w @ str ''/note/'' @ id' savedNote) (expire_time savedNote),
     st\<lparr>stored_notes := rows,
        events := events st @
        [(WRITE, \<lparr>success = True, host = connecting_ip req,
                  event_user_id = body_user_id (body req),
                  user_plugin_version = body_plugin_version (body req),
                  note_id = Some (id' savedNote),
                  size_bytes = Some (length (note_ciphertext savedNote)
                                     + length (note_hmac savedNote)),
                  expire_window_days = Some EXPIRE_WINDOW_DAYS,
                  error = None\<rparr>)]\<rparr>)"
  using assms
  by (auto simp: postNoteController_def accepted_def noteOf_def writeEvent_def
           split: jsvalue.splits)

lemma post_storage_failure:
  assumes "accepted req"
    and "createNote w (stored_notes st) (noteOf w req) = Inl err"
  shows "postNoteController w req st =
    (Next (Message err),
     st\<lparr>events := events st @
        [(WRITE, \<lparr>success = False, host = connecting_ip req,
                  event_user_id = body_user_id (body req),
                  user_plugin_version = body_plugin_version (body req),
                  note_id = None, size_bytes = None, expire_window_days = None,
                  error = Some (Message err)\<rparr>)]\<rparr>)"
  using assms
  by (auto simp: postNoteController_def accepted_def noteOf_def writeEvent_def
           split: jsvalue.splits)

lemma post_paths:
  obtains (validation) e es where "validateOrReject (assign (body req)) = e # es"
  | (checksum) u where "validateOrReject (assign (body req)) = []"
      "body_user_id (body req) = Str u" "\<not> checkId u"
  | (stored) savedNote rows where "accepted req"
      "createNote w (stored_notes st) (noteOf w req) = Inr (savedNote, rows)"
  | (storage_failure) err where "accepted req"
      "createNote w (stored_notes st) (noteOf w req) = Inl err"
proof (cases "validateOrReject (assign (body req))")
  case (Cons e es)
  then show ?thesis by (rule validation)
next
  case Nil
  show ?thesis
  proof (cases "accepted req")
    case False
    with Nil obtain u where "body_user_id (body req) = Str u" "\<not> checkId u"
      by (auto simp: accepted_def assign_def split: jsvalue.splits)
    with Nil show ?thesis by (rule checksum)
  next
    case True
    show ?thesis
    proof (cases "createNote w (stored_notes st) (noteOf w req)")
      case (Inl err)
      with True show ?thesis by (rule storage_failure)
    next
      case (Inr p)
      then obtain savedNote rows where
        "createNote w (stored_notes st) (noteOf w req) = Inr (savedNote, rows)"
        by (cases p) simp
      with True show ?thesis by (rule stored)
    qed
  qed
qed

lemma createNote_Inr:
  assumes "createNote w rows note = Inr (savedNote, rows')"
  shows "rows' = rows @ [savedNote] \<and> expire_time savedNote = in_expire_time note
         \<and> insert_time savedNote = store_clock w
         \<and> in_ciphertext note = Str (note_ciphertext savedNote)
         \<and> in_hmac note = Str (note_hmac savedNote)
         \<and> id' savedNote \<notin> set (map id' rows)"
  using assms
  by (auto simp: createNote_def Let_def split: option.splits jsvalue.splits
      dest: find_Some_iff [THEN iffD1])

lemma post_stored_event:
  assumes "accepted req"
    and "createNote w (stored_notes st) (noteOf w req) = Inr (savedNote, rows)"
  obtains e where
    "postNoteController w req st =
       (Json (FRONTEND_URL w @ str ''/note/'' @ id' savedNote) (expire_time savedNote),
        st\<lparr>stored_notes := rows, events := events st @ [(WRITE, e)]\<rparr>)"
    and "success e" and "note_id e = Some (id' savedNote)"
    and "size_bytes e = Some (length (note_ciphertext savedNote) + length (note_hmac savedNote))"
    and "expire_window_days e = Some 30" and "error e = None"
  by (rule that [OF post_stored [OF assms]]) (simp_all add: EXPIRE_WINDOW_DAYS_def)


subsection \<open>The example request, evaluated\<close>

lemmas validator_eval =
  assign_def validateOrReject_def isBase64_def isBase64Char_def
  isUpper_def isLower_def isDigit_def isHexadecimal_def hexDigits_def isHexChar_def
  matchesCryptoVersion_def digits_def str_def IsBase64_def IsNotEmpty_def
  IsHexadecimal_def Matches_def ValidateIf_not_null_def

lemma testRequest_valid: "validateOrReject (assign (body testRequest)) = []"
  by (simp add: testRequest_def testNote_def validator_eval)

lemma badUserRequest_valid: "validateOrReject (assign (body badUserRequest)) = []"
  by (simp add: badUserRequest_def testNote_def validator_eval)

lemma testRequest_accepted: "accepted testRequest"
  using testRequest_valid
  by (simp add: accepted_def) (simp add: testRequest_def testNote_def assign_def)

lemma testRequest_created:
  "createNote testWorld (stored_notes emptyState) (noteOf testWorld testRequest)
   = Inr (testSaved, [testSaved])"
  by (simp add: createNote_def noteOf_def testWorld_def emptyState_def testRequest_def
      testNote_def assign_def addDays_def EXPIRE_WINDOW_DAYS_def test_world_portion testSaved_def
      Let_def)

lemma testRequest_status: "status (fst (postNoteController testWorld testRequest emptyState)) = 200"
  by (simp add: post_stored [OF testRequest_accepted testRequest_created])

lemma badUserRequest_status:
  "status (fst (postNoteController testWorld badUserRequest emptyState)) = 400"
  by (subst post_checksum_failure [OF badUserRequest_valid _ bad_user_id])
     (simp_all add: badUserRequest_def)

lemma upper_user_id: "checkId (str ''ABCDEF012345c2e0'')"
  by (simp add: codec_eval)

lemma upper_user_id_section41: "\<not> validate_spec (str ''ABCDEF012345c2e0'')"
  by (simp add: validate_spec_def isLowerHex_def str_def)

lemma upperUserRequest_valid: "validateOrReject (assign (body upperUserRequest)) = []"
  by (simp add: upperUserRequest_def testNote_def validator_eval)

lemma upperUserRequest_accepted: "accepted upperUserRequest"
  using upperUserRequest_valid
  by (simp add: accepted_def)
     (simp add: upperUserRequest_def testNote_def assign_def upper_user_id)

lemma upperUserRequest_created:
  "createNote testWorld (stored_notes emptyState) (noteOf testWorld upperUserRequest)
   = Inr (testSaved, [testSaved])"
  by (simp add: createNote_def noteOf_def testWorld_def emptyState_def upperUserRequest_def
      testNote_def assign_def addDays_def EXPIRE_WINDOW_DAYS_def test_world_portion
      testSaved_def Let_def)

lemma validated_user_id_hex:
  assumes "validateOrReject r = []" and "ValidateIf_not_null (user_id r)"
  shows "IsHexadecimal (user_id r)"
  using assms by (simp add: validateOrReject_def split: if_splits)

lemma section41_accepted_by_code:
  assumes "passesSection41 v"
  shows "IsHexadecimal v \<and> passesCheckId v"
proof -
  from assms obtain u where v: "v = Str u" and u: "validate_spec u"
    by (cases v) (simp_all add: passesSection41_def)
  from u have "length u = 16" "list_all isLowerHex u"
    "drop 12 u = hex4 (crc16 (take 12 u))"
    by (simp_all add: validate_spec_def)
  then have "checkId u" "u \<noteq> []" "list_all isHexChar u"
    by (auto simp: checkId_iff list_all_iff isLowerHex_def isHexChar_def isDigit_def)
  then show ?thesis
    by (simp add: v IsHexadecimal_def passesCheckId_def isHexadecimal_def hexDigits_def)
qed

section \<open>The write controller: the claims\<close>

text \<open>
  Claim C3. Every request that \<^verbatim>\<open>postNoteController\<close> handles appends exactly one
  WRITE event to the log, on each of its four paths, and the \<^verbatim>\<open>success\<close> field of
  the event is true exactly when the response has status 200, which is exactly when a
  note was added to the store; on the other paths the store is unchanged.
\<close>

theorem one_write_event:
  "\<exists>e. events (snd (postNoteController w req st)) = events st @ [(WRITE, e)]
      \<and> success e = (status (fst (postNoteController w req st)) = 200)
      \<and> success e =
          (\<exists>n. stored_notes (snd (postNoteController w req st)) = stored_notes st @ [n])
      \<and> (\<not> success e \<longrightarrow>
            stored_notes (snd (postNoteController w req st)) = stored_notes st)"
proof (cases rule: post_paths [where req = req and w = w and st = st])
  case (validation e es)
  then show ?thesis by (simp add: post_validation_failure)
next
  case (checksum u)
  then show ?thesis by (simp add: post_checksum_failure)
next
  case (stored savedNote rows)
  from createNote_Inr [OF stored(2)] have "rows = stored_notes st @ [savedNote]" by simp
  with stored show ?thesis by (simp add: post_stored)
next
  case (storage_failure err)
  then show ?thesis by (simp add: post_storage_failure)
qed

theorem one_write_event_witness:
  "status (fst (postNoteController testWorld testRequest emptyState)) = 200
   \<and> (\<exists>e. events (snd (postNoteController testWorld testRequest emptyState)) = [(WRITE, e)]
          \<and> success e)
   \<and> status (fst (postNoteController testWorld badUserRequest emptyState)) = 400
   \<and> (\<exists>e. events (snd (postNoteController testWorld badUserRequest emptyState)) = [(WRITE, e)]
          \<and> \<not> success e)"
proof -
  have e: "events emptyState = []" by (simp add: emptyState_def)
  from testRequest_status badUserRequest_status
    one_write_event [of testWorld testRequest emptyState]
    one_write_event [of testWorld badUserRequest emptyState]
  show ?thesis unfolding e by auto
qed

text \<open>
  Claim C4. When a note is created, the stored \<^verbatim>\<open>expire_time\<close> is the time of the
  controller's clock plus 30 days, which is 30 days after the \<^verbatim>\<open>insert_time\<close> of the
  store less the delay between the two clock readings; the response carries that
  \<^verbatim>\<open>expire_time\<close>, and the WRITE event records \<^verbatim>\<open>expire_window_days = 30\<close>.
\<close>

theorem expire_time_thirty_days:
  assumes "status (fst (postNoteController w req st)) = 200"
  shows "\<exists>n e url.
           postNoteController w req st
             = (Json url (expire_time n),
                st\<lparr>stored_notes := stored_notes st @ [n],
                   events := events st @ [(WRITE, e)]\<rparr>)
           \<and> expire_time n = now w + 30 * 86400000
           \<and> expire_time n = insert_time n + 30 * 86400000 - (store_clock w - now w)
           \<and> note_id e = Some (id' n) \<and> expire_window_days e = Some 30"
proof (cases rule: post_paths [where req = req and w = w and st = st])
  case (validation e es)
  with assms show ?thesis by (simp add: post_validation_failure)
next
  case (checksum u)
  with assms show ?thesis by (simp add: post_checksum_failure)
next
  case (stored savedNote rows)
  from createNote_Inr [OF stored(2)]
  have r: "rows = stored_notes st @ [savedNote]"
    and t: "expire_time savedNote = now w + 30 * 86400000"
    and i: "insert_time savedNote = store_clock w"
    by (simp_all add: noteOf_def addDays_def EXPIRE_WINDOW_DAYS_def)
  from t i have "expire_time savedNote
      = insert_time savedNote + 30 * 86400000 - (store_clock w - now w)"
    by simp
  moreover from post_stored_event [OF stored] obtain e where
    "postNoteController w req st =
       (Json (FRONTEND_URL w @ str ''/note/'' @ id' savedNote) (expire_time savedNote),
        st\<lparr>stored_notes := stored_notes st @ [savedNote],
           events := events st @ [(WRITE, e)]\<rparr>)"
    "note_id e = Some (id' savedNote)" "expire_window_days e = Some 30"
    unfolding r by blast
  ultimately show ?thesis using t by blast
next
  case (storage_failure err)
  with assms show ?thesis by (simp add: post_storage_failure)
qed

theorem expire_time_thirty_days_witness:
  "status (fst (postNoteController testWorld testRequest emptyState)) = 200
   \<and> (\<exists>n e url.
         postNoteController testWorld testRequest emptyState
           = (Json url (expire_time n),
              emptyState\<lparr>stored_notes := stored_notes emptyState @ [n],
                 events := events emptyState @ [(WRITE, e)]\<rparr>)
         \<and> expire_time n = now testWorld + 30 * 86400000
         \<and> expire_time n
             = insert_time n + 30 * 86400000 - (store_clock testWorld - now testWorld)
         \<and> note_id e = Some (id' n) \<and> expire_window_days e = Some 30)"
  using testRequest_status
    expire_time_thirty_days [of testWorld testRequest emptyState]
  by simp

text \<open>
  Claim C6, as the code has it. A request whose body has a \<^verbatim>\<open>user_id\<close> (a value
  other than \<^verbatim>\<open>null\<close>) that fails \<^verbatim>\<open>@IsHexadecimal\<close> or is not accepted by
  \<^verbatim>\<open>checkId\<close> is answered with status 400, by the validation of the body or by the
  checksum test; no note is stored, and the one WRITE event is a failure that carries
  the text sent to the client. Every \<^verbatim>\<open>user_id\<close> that passes section 4.1 passes both
  tests (lemma \<open>section41_accepted_by_code\<close>), so the requests rejected are among
  those the specification names.
\<close>

theorem invalid_user_id_rejected:
  assumes provided: "ValidateIf_not_null (body_user_id (body req))"
    and invalid: "\<not> (IsHexadecimal (body_user_id (body req))
                    \<and> passesCheckId (body_user_id (body req)))"
  shows "\<exists>text e.
           postNoteController w req st
             = (Send 400 text, st\<lparr>events := events st @ [(WRITE, e)]\<rparr>)
           \<and> stored_notes (snd (postNoteController w req st)) = stored_notes st
           \<and> \<not> success e \<and> error e = Some text"
proof (cases "validateOrReject (assign (body req))")
  case Nil
  have uid: "user_id (assign (body req)) = body_user_id (body req)" by (simp add: assign_def)
  from validated_user_id_hex [OF Nil] provided uid
  have "IsHexadecimal (body_user_id (body req))" by simp
  with invalid have "\<not> passesCheckId (body_user_id (body req))" by simp
  moreover from Nil uid have "body_user_id (body req) \<noteq> NonString"
    using validated_user_id_string [OF Nil] by simp
  ultimately obtain u where
    u: "body_user_id (body req) = Str u" "\<not> checkId u"
    using provided
    by (cases "body_user_id (body req)")
       (simp_all add: ValidateIf_not_null_def passesCheckId_def)
  let ?text = "Message (str ''Invalid user id (checksum failed)'')"
  let ?e = "\<lparr>success = False, host = connecting_ip req,
             event_user_id = body_user_id (body req),
             user_plugin_version = body_plugin_version (body req),
             note_id = None, size_bytes = None, expire_window_days = None,
             error = Some ?text\<rparr>"
  show ?thesis
    by (rule exI [of _ ?text], rule exI [of _ ?e])
       (simp add: post_checksum_failure [OF Nil u])
next
  case (Cons x xs)
  let ?text = "ValidationErrors (x # xs)"
  let ?e = "\<lparr>success = False, host = connecting_ip req,
             event_user_id = body_user_id (body req),
             user_plugin_version = body_plugin_version (body req),
             note_id = None, size_bytes = None, expire_window_days = None,
             error = Some ?text\<rparr>"
  show ?thesis
    by (rule exI [of _ ?text], rule exI [of _ ?e])
       (simp add: post_validation_failure [OF Cons])
qed

theorem invalid_user_id_rejected_witness:
  "body_user_id (body badUserRequest) = Str (str ''0123456789abdab9'')
   \<and> ValidateIf_not_null (body_user_id (body badUserRequest))
   \<and> \<not> (IsHexadecimal (body_user_id (body badUserRequest))
          \<and> passesCheckId (body_user_id (body badUserRequest)))
   \<and> (\<exists>text e.
         postNoteController testWorld badUserRequest emptyState
           = (Send 400 text, emptyState\<lparr>events := events emptyState @ [(WRITE, e)]\<rparr>)
         \<and> stored_notes (snd (postNoteController testWorld badUserRequest emptyState))
             = stored_notes emptyState
         \<and> \<not> success e \<and> error e = Some text)"
proof -
  have u: "body_user_id (body badUserRequest) = Str (str ''0123456789abdab9'')"
    by (simp add: badUserRequest_def)
  have p: "ValidateIf_not_null (body_user_id (body badUserRequest))"
    by (simp add: u ValidateIf_not_null_def)
  have i: "\<not> (IsHexadecimal (body_user_id (body badUserRequest))
          \<and> passesCheckId (body_user_id (body badUserRequest)))"
    by (simp add: u passesCheckId_def bad_user_id)
  from u p i invalid_user_id_rejected [OF p i, of testWorld emptyState]
  show ?thesis by blast
qed

text \<open>
  Claim C6 as stated fails: the user id \<^verbatim>\<open>ABCDEF012345c2e0\<close> is not lowercase
  hexadecimal, so it does not pass the scheme of section 4.1; \<^verbatim>\<open>@IsHexadecimal\<close>
  ignores case and \<^verbatim>\<open>checkId\<close> tests no character, c2e0 being the CRC-16 of the
  first twelve characters, so the request is answered with 200 and the note is stored.
\<close>

theorem upper_case_user_id_accepted:
  "ValidateIf_not_null (body_user_id (body upperUserRequest))
   \<and> \<not> passesSection41 (body_user_id (body upperUserRequest))
   \<and> status (fst (postNoteController testWorld upperUserRequest emptyState)) = 200
   \<and> stored_notes (snd (postNoteController testWorld upperUserRequest emptyState))
       = [testSaved]"
proof -
  have u: "body_user_id (body upperUserRequest) = Str (str ''ABCDEF012345c2e0'')"
    by (simp add: upperUserRequest_def)
  have "stored_notes (snd (postNoteController testWorld upperUserRequest emptyState))
      = [testSaved]"
    "status (fst (postNoteController testWorld upperUserRequest emptyState)) = 200"
    by (simp_all add: post_stored [OF upperUserRequest_accepted upperUserRequest_created])
  then show ?thesis
    by (simp add: u ValidateIf_not_null_def passesSection41_def upper_user_id_section41)
qed

text \<open>
  Claim C8. For a successful write, \<^verbatim>\<open>size_bytes\<close> of the WRITE event is the sum of
  the lengths of the stored ciphertext and the stored hmac, which are the strings of
  the request.
\<close>

theorem write_event_size_bytes:
  assumes "status (fst (postNoteController w req st)) = 200"
  shows "\<exists>n e. stored_notes (snd (postNoteController w req st)) = stored_notes st @ [n]
           \<and> events (snd (postNoteController w req st)) = events st @ [(WRITE, e)]
           \<and> success e \<and> note_id e = Some (id' n)
           \<and> size_bytes e = Some (length (note_ciphertext n) + length (note_hmac n))
           \<and> body_ciphertext (body req) = Str (note_ciphertext n)
           \<and> body_hmac (body req) = Str (note_hmac n)"
proof (cases rule: post_paths [where req = req and w = w and st = st])
  case (validation e es)
  with assms show ?thesis by (simp add: post_validation_failure)
next
  case (checksum u)
  with assms show ?thesis by (simp add: post_checksum_failure)
next
  case (stored savedNote rows)
  from createNote_Inr [OF stored(2)]
  have r: "rows = stored_notes st @ [savedNote]"
    and c: "body_ciphertext (body req) = Str (note_ciphertext savedNote)"
      "body_hmac (body req) = Str (note_hmac savedNote)"
    by (simp_all add: noteOf_def assign_def)
  from post_stored_event [OF stored] obtain e where
    p: "postNoteController w req st =
       (Json (FRONTEND_URL w @ str ''/note/'' @ id' savedNote) (expire_time savedNote),
        st\<lparr>stored_notes := stored_notes st @ [savedNote],
           events := events st @ [(WRITE, e)]\<rparr>)"
    and e: "success e" "note_id e = Some (id' savedNote)"
      "size_bytes e
         = Some (length (note_ciphertext savedNote) + length (note_hmac savedNote))"
    unfolding r by blast
  from p have "stored_notes (snd (postNoteController w req st)) = stored_notes st @ [savedNote]"
    and "events (snd (postNoteController w req st)) = events st @ [(WRITE, e)]"
    by simp_all
  with e c show ?thesis by blast
next
  case (storage_failure err)
  with assms show ?thesis by (simp add: post_storage_failure)
qed

theorem write_event_size_bytes_witness:
  "status (fst (postNoteController testWorld testRequest emptyState)) = 200
   \<and> (\<exists>n e. stored_notes (snd (postNoteController testWorld testRequest emptyState))
               = stored_notes emptyState @ [n]
         \<and> events (snd (postNoteController testWorld testRequest emptyState))
               = events emptyState @ [(WRITE, e)]
         \<and> success e \<and> note_id e = Some (id' n)
         \<and> size_bytes e = Some (length (note_ciphertext n) + length (note_hmac n))
         \<and> body_ciphertext (body testRequest) = Str (note_ciphertext n)
         \<and> body_hmac (body testRequest) = Str (note_hmac n))"
  using testRequest_status
    write_event_size_bytes [of testWorld testRequest emptyState]
  by simp

section \<open>Properties of the read path and the sweeper\<close>

lemma find_by_id:
  "n \<in> set xs \<Longrightarrow> distinct (map id' xs) \<Longrightarrow> find (\<lambda>m. id' m = id' n) xs = Some n"
  by (induction xs) (auto simp: image_iff)

lemma filter_by_id:
  "n \<in> set xs \<Longrightarrow> distinct (map id' xs) \<Longrightarrow> filter (\<lambda>m. id' m = id' n) xs = [n]"
proof (induction xs)
  case Nil
  then show ?case by simp
next
  case (Cons x xs)
  show ?case
  proof (cases "x = n")
    case True
    from Cons.prems(2) have "\<forall>m\<in>set xs. id' m \<noteq> id' x" by (auto simp: image_iff)
    then have "filter (\<lambda>m. id' m = id' x) xs = []" by (simp add: filter_empty_conv)
    with True show ?thesis by simp
  next
    case False
    with Cons.prems have "n \<in> set xs" "id' x \<noteq> id' n" by (auto simp: image_iff)
    with Cons show ?thesis by simp
  qed
qed

lemma same_id_same_note:
  "distinct (map id' xs) \<Longrightarrow> n \<in> set xs \<Longrightarrow> m \<in> set xs \<Longrightarrow> id' m = id' n \<Longrightarrow> m = n"
  by (auto simp: distinct_map dest: inj_onD)

lemma get_state:
  "stored_notes (snd (getNoteController ip i st)) = stored_notes st"
  "tombstones (snd (getNoteController ip i st)) = tombstones st"
  "\<exists>e. events (snd (getNoteController ip i st)) = events st @ [(READ, e)]"
  by (simp_all add: getNoteController_def logEvent_def split: ReadResult.splits)

lemma get_purge_events: "purgeEventsOf j (snd (getNoteController ip i st)) = purgeEventsOf j st"
  using get_state(3) [of ip i st] by (auto simp: purgeEventsOf_def)

lemma get_found:
  assumes "validate_spec (id' n)" "n \<in> set (stored_notes st)"
    "distinct (map id' (stored_notes st))"
  shows "fst (getNoteController ip (id' n) st) = JsonNote n"
  using assms by (simp add: getNoteController_def read_def find_by_id)

lemma purge_events_of_sweep:
  "map snd (filter (\<lambda>(ty, e). ty = PURGE \<and> note_id e = Some i) (map purgeEvent xs))
   = map (snd \<circ> purgeEvent) (filter (\<lambda>m. id' m = i) xs)"
  by (induction xs) (simp_all add: purgeEvent_def)

lemma sweep_unfold:
  "deleteExpiredNotes t st =
     (length (filter (\<lambda>n. expire_time n \<le> t) (stored_notes st)),
      st\<lparr>stored_notes := filter (\<lambda>n. \<not> expire_time n \<le> t) (stored_notes st),
         tombstones := tombstones st
            \<union> set (map id' (filter (\<lambda>n. expire_time n \<le> t) (stored_notes st))),
         events := events st
            @ map purgeEvent (filter (\<lambda>n. expire_time n \<le> t) (stored_notes st))\<rparr>)"
  by (simp add: deleteExpiredNotes_def Let_def)

lemma sweep_removes:
  assumes "n \<in> set (stored_notes st)" "distinct (map id' (stored_notes st))"
    "expire_time n \<le> t"
  shows "find (\<lambda>m. id' m = id' n) (stored_notes (snd (deleteExpiredNotes t st))) = None"
    and "id' n \<in> tombstones (snd (deleteExpiredNotes t st))"
    and "purgeEventsOf (id' n) (snd (deleteExpiredNotes t st))
         = purgeEventsOf (id' n) st @ [snd (purgeEvent n)]"
    and "0 < fst (deleteExpiredNotes t st)"
proof -
  let ?expired = "filter (\<lambda>m. expire_time m \<le> t) (stored_notes st)"
  from assms have in_expired: "n \<in> set ?expired" by simp
  from assms(2) have d: "distinct (map id' ?expired)" by (rule distinct_map_filter)
  show "find (\<lambda>m. id' m = id' n) (stored_notes (snd (deleteExpiredNotes t st))) = None"
    using assms by (auto simp: sweep_unfold find_None_iff dest: same_id_same_note)
  show "id' n \<in> tombstones (snd (deleteExpiredNotes t st))"
    using in_expired by (simp add: sweep_unfold image_iff) blast
  show "purgeEventsOf (id' n) (snd (deleteExpiredNotes t st))
         = purgeEventsOf (id' n) st @ [snd (purgeEvent n)]"
    by (simp add: sweep_unfold purgeEventsOf_def purge_events_of_sweep
        filter_by_id [OF in_expired d] del: filter_filter)
  show "0 < fst (deleteExpiredNotes t st)"
    using in_expired by (auto simp: sweep_unfold filter_empty_conv)
qed

section \<open>The read path and the sweeper: the claims\<close>

text \<open>
  Claim C1. A stored note whose \<^verbatim>\<open>expire_time\<close> has passed, and for which the log
  has no PURGE event yet, is still read with status 200; the sweep then deletes at least
  one note, a read of the same id after it is answered with 410, and the log has exactly
  one PURGE event for the id, with \<^verbatim>\<open>success = true\<close> and \<^verbatim>\<open>size_bytes\<close> the sum of
  the lengths of the stored ciphertext and hmac. The ids of the store are distinct and
  valid, as the identifier codec assigns them.
\<close>

theorem expired_note_readable_until_swept:
  assumes "n \<in> set (stored_notes st)" and "distinct (map id' (stored_notes st))"
    and "validate_spec (id' n)" and "expire_time n \<le> t"
    and "purgeEventsOf (id' n) st = []"
  shows "let st1 = snd (getNoteController ip (id' n) st);
             st2 = snd (deleteExpiredNotes t st1);
             st3 = snd (getNoteController ip (id' n) st2)
         in status (fst (getNoteController ip (id' n) st)) = 200
            \<and> 0 < fst (deleteExpiredNotes t st1)
            \<and> status (fst (getNoteController ip (id' n) st2)) = 410
            \<and> (\<exists>e. purgeEventsOf (id' n) st3 = [e] \<and> success e
                   \<and> size_bytes e
                       = Some (length (note_ciphertext n) + length (note_hmac n)))"
proof -
  let ?st1 = "snd (getNoteController ip (id' n) st)"
  let ?st2 = "snd (deleteExpiredNotes t ?st1)"
  let ?st3 = "snd (getNoteController ip (id' n) ?st2)"
  have a: "status (fst (getNoteController ip (id' n) st)) = 200"
    using assms(1-3) by (simp add: get_found)
  have n1: "n \<in> set (stored_notes ?st1)" "distinct (map id' (stored_notes ?st1))"
    using assms(1,2) by (simp_all add: get_state)
  note sw = sweep_removes [OF n1 assms(4)]
  have b: "status (fst (getNoteController ip (id' n) ?st2)) = 410"
    using sw(1,2) assms(3) by (simp add: getNoteController_def read_def)
  have "purgeEventsOf (id' n) ?st3 = [snd (purgeEvent n)]"
    using sw(3) assms(5) by (simp add: get_purge_events)
  moreover have "success (snd (purgeEvent n))"
    "size_bytes (snd (purgeEvent n))
       = Some (length (note_ciphertext n) + length (note_hmac n))"
    by (simp_all add: purgeEvent_def)
  ultimately have c: "\<exists>e. purgeEventsOf (id' n) ?st3 = [e] \<and> success e
      \<and> size_bytes e = Some (length (note_ciphertext n) + length (note_hmac n))"
    by blast
  from a sw(4) b c show ?thesis by (simp add: Let_def)
qed

theorem expired_note_readable_until_swept_witness:
  "expiredNote \<in> set (stored_notes expiredState)
   \<and> distinct (map id' (stored_notes expiredState))
   \<and> validate_spec (id' expiredNote) \<and> expire_time expiredNote \<le> 1000
   \<and> purgeEventsOf (id' expiredNote) expiredState = []
   \<and> (let st1 = snd (getNoteController (str ''127.0.0.1'') (id' expiredNote) expiredState);
           st2 = snd (deleteExpiredNotes 1000 st1);
           st3 = snd (getNoteController (str ''127.0.0.1'') (id' expiredNote) st2)
       in status (fst (getNoteController (str ''127.0.0.1'') (id' expiredNote) expiredState))
            = 200
          \<and> 0 < fst (deleteExpiredNotes 1000 st1)
          \<and> status (fst (getNoteController (str ''127.0.0.1'') (id' expiredNote) st2)) = 410
          \<and> (\<exists>e. purgeEventsOf (id' expiredNote) st3 = [e] \<and> success e
                 \<and> size_bytes e
                     = Some (length (note_ciphertext expiredNote)
                             + length (note_hmac expiredNote))))"
proof -
  have a: "expiredNote \<in> set (stored_notes expiredState)"
    "distinct (map id' (stored_notes expiredState))"
    "purgeEventsOf (id' expiredNote) expiredState = []"
    by (simp_all add: expiredState_def purgeEventsOf_def)
  have b: "validate_spec (id' expiredNote)"
    by (simp add: expiredNote_def codec_eval)
  have c: "expire_time expiredNote \<le> 1000"
    by (simp add: expiredNote_def)
  from a b c
    expired_note_readable_until_swept [OF a(1,2) b c a(3), of "str ''127.0.0.1''"]
  show ?thesis by blast
qed

text \<open>
  Claim C7. A read of an id that fails the validation of the identifier codec is
  answered with 404, never with 410, whatever the tombstones are, and is logged as one
  failed READ event for that id.
\<close>

theorem invalid_id_not_found:
  assumes "\<not> validate_spec i"
  shows "\<exists>e text. getNoteController ip i st
             = (Send 404 text, st\<lparr>events := events st @ [(READ, e)]\<rparr>)
           \<and> \<not> success e \<and> note_id e = Some i \<and> error e = Some text
           \<and> status (fst (getNoteController ip i st)) \<noteq> 410"
proof -
  let ?text = "Message (str ''Not found'')"
  let ?e = "(readEvent ip i)\<lparr>error := Some ?text\<rparr>"
  show ?thesis
    by (rule exI [of _ ?e], rule exI [of _ ?text])
       (simp add: getNoteController_def read_def assms logEvent_def readEvent_def)
qed

theorem invalid_id_not_found_witness:
  "\<not> validate_spec (str ''NaN'')
   \<and> str ''NaN'' \<in> tombstones (emptyState\<lparr>tombstones := {str ''NaN''}\<rparr>)
   \<and> (\<exists>e text.
         getNoteController (str ''127.0.0.1'') (str ''NaN'')
             (emptyState\<lparr>tombstones := {str ''NaN''}\<rparr>)
           = (Send 404 text,
              emptyState\<lparr>tombstones := {str ''NaN''},
                 events := events (emptyState\<lparr>tombstones := {str ''NaN''}\<rparr>)
                             @ [(READ, e)]\<rparr>)
         \<and> \<not> success e \<and> note_id e = Some (str ''NaN'') \<and> error e = Some text
         \<and> status (fst (getNoteController (str ''127.0.0.1'') (str ''NaN'')
                            (emptyState\<lparr>tombstones := {str ''NaN''}\<rparr>))) \<noteq> 410)"
proof -
  have a: "\<not> validate_spec (str ''NaN'')" by (simp add: validate_spec_def str_def)
  from a invalid_id_not_found [OF a, of "str ''127.0.0.1''"
      "emptyState\<lparr>tombstones := {str ''NaN''}\<rparr>"]
  show ?thesis by simp
qed

section \<open>Properties of the rate limiter\<close>

lemma allow_idle:
  assumes "idle lim c k t" "0 < budget lim (snd k)"
  shows "allow lim t k c = (True, c(k \<mapsto> (t, 1)))"
  using assms by (auto simp: allow_def idle_def split: option.splits)

lemma allow_admit:
  assumes "c k = Some (s, u)" "t < s + window lim" "u < budget lim (snd k)"
  shows "allow lim t k c = (True, c(k \<mapsto> (s, u + 1)))"
  using assms by (simp add: allow_def)

lemma allow_reject:
  assumes "c k = Some (s, u)" "t < s + window lim" "\<not> u < budget lim (snd k)"
  shows "allow lim t k c = (False, c(k \<mapsto> (s, u)))"
  using assms by (simp add: allow_def)

lemma handle_admit:
  assumes "allow lim t (clientKey call) c = (True, c')"
  shows "handle lim t call (c, st)
         = ((True, fst (controller call st)), (c', snd (controller call st)))"
  using assms by (simp add: handle_def split: prod.splits)

lemma handle_reject:
  assumes "allow lim t (clientKey call) c = (False, c')"
  shows "handle lim t call (c, st) = ((False, tooManyRequests), (c', logRejection call st))"
  using assms by (simp add: handle_def)

lemma rejected_is_429:
  "(False, r) \<in> set (serve lim burst cs) \<Longrightarrow> r = tooManyRequests"
proof (induction burst arbitrary: cs)
  case Nil
  then show ?case by simp
next
  case (Cons x burst)
  obtain t call where x: "x = (t, call)" by (cases x)
  obtain c st where cs: "cs = (c, st)" by (cases cs)
  obtain d c' where a: "allow lim t (clientKey call) c = (d, c')"
    by (cases "allow lim t (clientKey call) c")
  show ?case
  proof (cases d)
    case True
    with a Cons.prems x cs Cons.IH show ?thesis by (auto simp: handle_admit)
  next
    case False
    with a Cons.prems x cs Cons.IH show ?thesis by (auto simp: handle_reject)
  qed
qed

lemma over_budget_rejects:
  assumes "c k = Some (s, u)"
    and "\<forall>(t, call) \<in> set burst. clientKey call = k \<and> t < s + window lim"
    and "budget lim (snd k) - u < length burst"
  shows "(False, tooManyRequests) \<in> set (serve lim burst (c, st))"
  using assms
proof (induction burst arbitrary: c u st)
  case Nil
  then show ?case by simp
next
  case (Cons x burst)
  obtain t call where x: "x = (t, call)" by (cases x)
  with Cons.prems(2) have k: "clientKey call = k" and t: "t < s + window lim" by auto
  show ?case
  proof (cases "u < budget lim (snd k)")
    case False
    have "allow lim t (clientKey call) c = (False, c(k \<mapsto> (s, u)))"
      using Cons.prems(1) t False by (simp add: k allow_reject)
    then show ?thesis by (simp add: x handle_reject)
  next
    case True
    have a: "allow lim t (clientKey call) c = (True, c(k \<mapsto> (s, u + 1)))"
      using Cons.prems(1) t True by (simp add: k allow_admit)
    have "(False, tooManyRequests)
        \<in> set (serve lim burst (c(k \<mapsto> (s, u + 1)), snd (controller call st)))"
    proof (rule Cons.IH)
      show "(c(k \<mapsto> (s, u + 1))) k = Some (s, u + 1)" by simp
      show "\<forall>(t, call) \<in> set burst. clientKey call = k \<and> t < s + window lim"
        using Cons.prems(2) by simp
      show "budget lim (snd k) - (u + 1) < length burst"
        using Cons.prems(3) True by simp
    qed
    then show ?thesis by (simp add: x handle_admit [OF a])
  qed
qed

subsection \<open>Well-formed requests are answered with 200\<close>

lemma validated_strings:
  assumes "validateOrReject r = []"
  obtains c h v where "ciphertext r = Str c" "hmac r = Str h" "crypto_version r = Str v"
proof -
  from assms have "IsBase64 (ciphertext r)" "IsBase64 (hmac r)"
    "Matches matchesCryptoVersion (crypto_version r)"
    by (simp_all add: validateOrReject_def split: if_splits)
  then show ?thesis
    by (cases "ciphertext r"; cases "hmac r"; cases "crypto_version r")
       (simp_all add: IsBase64_def Matches_def that)
qed

lemma post_200:
  assumes "accepted req" "storage_error w = None" "random_portions w = p # ps"
    and "withChecksum p \<notin> set (map id' (stored_notes st))"
  shows "status (fst (postNoteController w req st)) = 200"
    and "map id' (stored_notes (snd (postNoteController w req st)))
         = map id' (stored_notes st) @ [withChecksum p]"
proof -
  from assms(1) have "validateOrReject (assign (body req)) = []" by (simp add: accepted_def)
  then obtain c h v where s: "ciphertext (assign (body req)) = Str c"
    "hmac (assign (body req)) = Str h" "crypto_version (assign (body req)) = Str v"
    by (rule validated_strings)
  let ?saved = "\<lparr>id' = withChecksum p, insert_time = store_clock w,
      expire_time = addDays (now w) EXPIRE_WINDOW_DAYS,
      note_ciphertext = c, note_hmac = h, note_crypto_version = v\<rparr>"
  have cr: "createNote w (stored_notes st) (noteOf w req)
      = Inr (?saved, stored_notes st @ [?saved])"
    using assms(2-4) s by (simp add: createNote_def noteOf_def Let_def)
  show "status (fst (postNoteController w req st)) = 200"
    by (simp add: post_stored [OF assms(1) cr])
  show "map id' (stored_notes (snd (postNoteController w req st)))
         = map id' (stored_notes st) @ [withChecksum p]"
    by (simp add: post_stored [OF assms(1) cr])
qed

lemma get_200:
  assumes "validate_spec i" "i \<in> set (map id' (stored_notes st))"
  shows "status (fst (getNoteController ip i st)) = 200"
proof -
  from assms(2) have "find (\<lambda>n. id' n = i) (stored_notes st) \<noteq> None"
    by (auto simp: find_None_iff)
  then obtain n where "find (\<lambda>n. id' n = i) (stored_notes st) = Some n" by auto
  with assms(1) show ?thesis by (simp add: getNoteController_def read_def)
qed

lemma logRejection_notes: "stored_notes (logRejection call st) = stored_notes st"
  by (cases call) (simp_all add: logEvent_def)

lemma well_formed_served:
  assumes "set present \<subseteq> set (map id' (stored_notes st))"
    and "set (map id' (stored_notes st)) \<subseteq> set used"
    and "wellFormed present used burst"
  shows "\<forall>(admitted, r) \<in> set (serve lim burst (c, st)). admitted \<longrightarrow> status r = 200"
  using assms
proof (induction present used burst arbitrary: c st rule: wellFormed.induct)
  case (1 present used)
  then show ?case by simp
next
  case (2 present used t ip i rest)
  from "2.prems"(3) have v: "validate_spec i" and i: "i \<in> set present"
    and rest: "wellFormed present used rest" by simp_all
  obtain d c' where a: "allow lim t (clientKey (GetNote ip i)) c = (d, c')"
    by (cases "allow lim t (clientKey (GetNote ip i)) c")
  show ?case
  proof (cases d)
    case True
    let ?st = "snd (controller (GetNote ip i) st)"
    have n: "stored_notes ?st = stored_notes st" by (simp add: get_state)
    from i "2.prems"(1) have "i \<in> set (map id' (stored_notes st))" by blast
    with v have "status (fst (controller (GetNote ip i) st)) = 200"
      by (simp only: controller.simps get_200)
    moreover have "\<forall>(admitted, r) \<in> set (serve lim rest (c', ?st)).
        admitted \<longrightarrow> status r = 200"
      using "2.prems"(1,2) rest by (intro "2.IH") (simp_all only: n)
    ultimately show ?thesis using a True by (simp add: handle_admit)
  next
    case False
    let ?st = "logRejection (GetNote ip i) st"
    have n: "stored_notes ?st = stored_notes st" by (rule logRejection_notes)
    have "\<forall>(admitted, r) \<in> set (serve lim rest (c', ?st)).
        admitted \<longrightarrow> status r = 200"
      using "2.prems"(1,2) rest by (intro "2.IH") (simp_all only: n)
    then show ?thesis using a False by (simp add: handle_reject)
  qed
next
  case (3 present used t w req rest)
  from "3.prems"(3) obtain p ps where acc: "accepted req" and ok: "storage_error w = None"
    and ps: "random_portions w = p # ps" and new: "withChecksum p \<notin> set used"
    and rest: "wellFormed present (withChecksum p # used) rest"
    by (auto split: list.splits)
  from new "3.prems"(2) have unused: "withChecksum p \<notin> set (map id' (stored_notes st))"
    by auto
  obtain d c' where a: "allow lim t (clientKey (PostNote w req)) c = (d, c')"
    by (cases "allow lim t (clientKey (PostNote w req)) c")
  show ?case
  proof (cases d)
    case True
    let ?st = "snd (controller (PostNote w req) st)"
    from post_200 [OF acc ok ps unused]
    have s: "status (fst (controller (PostNote w req) st)) = 200"
      and n: "map id' (stored_notes ?st) = map id' (stored_notes st) @ [withChecksum p]"
      by simp_all
    have "\<forall>(admitted, r) \<in> set (serve lim rest (c', ?st)).
        admitted \<longrightarrow> status r = 200"
    proof (rule "3.IH" [OF ps _ _ rest])
      show "set present \<subseteq> set (map id' (stored_notes ?st))"
        using "3.prems"(1) unfolding n by auto
      show "set (map id' (stored_notes ?st)) \<subseteq> set (withChecksum p # used)"
        using "3.prems"(2) unfolding n by auto
    qed
    with s show ?thesis using a True by (simp add: handle_admit)
  next
    case False
    let ?st = "logRejection (PostNote w req) st"
    have "\<forall>(admitted, r) \<in> set (serve lim rest (c', ?st)).
        admitted \<longrightarrow> status r = 200"
    proof (rule "3.IH" [OF ps _ _ rest])
      show "set present \<subseteq> set (map id' (stored_notes ?st))"
        using "3.prems"(1) by simp
      show "set (map id' (stored_notes ?st)) \<subseteq> set (withChecksum p # used)"
        using "3.prems"(2) by auto
    qed
    then show ?thesis using a False by (simp add: handle_reject)
  qed
qed

subsection \<open>The example burst, evaluated\<close>

lemma expired_id_valid: "validate_spec (str ''0123456789abdab8'')"
  by (simp add: codec_eval)

lemma get_expired_note:
  "stored_notes st = [expiredNote] \<Longrightarrow>
   getNoteController ip (str ''0123456789abdab8'') st
   = (JsonNote expiredNote,
      logEvent READ
        ((readEvent ip (str ''0123456789abdab8''))
           \<lparr>success := True,
            size_bytes := Some (length (note_ciphertext expiredNote)
                                + length (note_hmac expiredNote))\<rparr>) st)"
  by (simp add: getNoteController_def read_def expired_id_valid) (simp add: expiredNote_def)

lemma testBurst_served:
  "serve testLimits testBurst (Map.empty, expiredState)
   = [(True, JsonNote expiredNote), (True, JsonNote expiredNote), (False, tooManyRequests)]"
  by (simp add: testBurst_def testLimits_def handle_def allow_def get_expired_note
      logEvent_def expiredState_def)

lemma test_post_stored:
  assumes "stored_notes st = []"
  shows "status (fst (postNoteController testWorld testRequest st)) = 200"
proof -
  have "random_portions testWorld = [str ''0123456789ab'']" "storage_error testWorld = None"
    by (simp_all add: testWorld_def)
  with assms show ?thesis by (intro post_200 (1) [OF testRequest_accepted]) simp_all
qed

lemma failing_post:
  "status (fst (postNoteController failingWorld testRequest st)) = 500"
proof -
  have "createNote failingWorld (stored_notes st) (noteOf failingWorld testRequest)
      = Inl (str ''Error: connection lost'')"
    by (simp add: createNote_def failingWorld_def)
  from post_storage_failure [OF testRequest_accepted this] show ?thesis by simp
qed

lemma failingBurst_statuses:
  "statuses (serve testLimits failingBurst (Map.empty, emptyState)) = [200, 500, 429]"
proof -
  let ?k = "(str ''127.0.0.1'', WriteOp)"
  let ?st1 = "snd (postNoteController testWorld testRequest emptyState)"
  let ?st2 = "snd (postNoteController failingWorld testRequest ?st1)"
  have k: "connecting_ip testRequest = str ''127.0.0.1''"
    by (simp add: testRequest_def)
  have a1: "allow testLimits 5000 ?k Map.empty = (True, [?k \<mapsto> (5000, 1)])"
    by (simp add: allow_def testLimits_def)
  have a2: "allow testLimits 5001 ?k [?k \<mapsto> (5000, 1)] = (True, [?k \<mapsto> (5000, 2)])"
    by (simp add: allow_def testLimits_def numeral_2_eq_2)
  have a3: "allow testLimits 5002 ?k [?k \<mapsto> (5000, 2)] = (False, [?k \<mapsto> (5000, 2)])"
    by (simp add: allow_def testLimits_def)
  have h1: "handle testLimits 5000 (PostNote testWorld testRequest) (Map.empty, emptyState)
      = ((True, fst (controller (PostNote testWorld testRequest) emptyState)),
         ([?k \<mapsto> (5000, 1)], snd (controller (PostNote testWorld testRequest) emptyState)))"
    by (rule handle_admit) (simp only: clientKey.simps k a1)
  have h2: "handle testLimits 5001 (PostNote failingWorld testRequest)
        ([?k \<mapsto> (5000, 1)], ?st1)
      = ((True, fst (controller (PostNote failingWorld testRequest) ?st1)),
         ([?k \<mapsto> (5000, 2)], snd (controller (PostNote failingWorld testRequest) ?st1)))"
    by (rule handle_admit) (simp only: clientKey.simps k a2)
  have h3: "handle testLimits 5002 (PostNote testWorld testRequest)
        ([?k \<mapsto> (5000, 2)], ?st2)
      = ((False, tooManyRequests),
         ([?k \<mapsto> (5000, 2)], logRejection (PostNote testWorld testRequest) ?st2))"
    by (rule handle_reject) (simp only: clientKey.simps k a3)
  have "serve testLimits failingBurst (Map.empty, emptyState)
      = [(True, fst (postNoteController testWorld testRequest emptyState)),
         (True, fst (postNoteController failingWorld testRequest ?st1)),
         (False, tooManyRequests)]"
    using h1 h2 h3 by (simp add: failingBurst_def)
  moreover have "status (fst (postNoteController testWorld testRequest emptyState)) = 200"
    by (rule test_post_stored) (simp add: emptyState_def)
  ultimately show ?thesis
    by (simp add: statuses_def failing_post tooManyRequests_def)
qed

lemma second_world_portion: "withChecksum (str ''a1b2c3d4e5f6'') = str ''a1b2c3d4e5f60030''"
  by (simp add: codec_eval)

lemma third_world_portion: "withChecksum (str ''fedcba987654'') = str ''fedcba987654ba32''"
  by (simp add: codec_eval)

lemma writeBurst_well_formed: "wellFormed [] [] writeBurst"
  by (simp add: writeBurst_def testRequest_accepted testWorld_def secondWorld_def
      thirdWorld_def test_world_portion second_world_portion third_world_portion)
     (simp add: str_def)

section \<open>The rate limiter: the claim\<close>

text \<open>
  Claim C9, as the model has it. A burst is a list of requests of one client to one
  endpoint, all inside the window that opens with the first of them, the counter of the
  client being idle when the burst starts. If the burst has more requests than the
  budget of the endpoint, the budget being at least one request, and if the burst is
  well formed (each read names a valid id of a stored note; each write passes the checks
  of the write controller, the persistence layer does not fail and the codec draws an
  unused identifier), then the statuses of the responses contain a 429 and a 200, and
  nothing but 200 and 429.
\<close>

theorem burst_over_budget:
  assumes same: "\<forall>(t, call) \<in> set burst. clientKey call = k"
    and inside: "\<forall>(t, call) \<in> set burst. t < fst (hd burst) + window lim"
    and fresh: "idle lim (fst cs) k (fst (hd burst))"
    and positive: "0 < budget lim (snd k)"
    and over: "budget lim (snd k) < length burst"
    and well_formed:
      "wellFormed (map id' (stored_notes (snd cs))) (map id' (stored_notes (snd cs))) burst"
  shows "429 \<in> set (statuses (serve lim burst cs))
         \<and> 200 \<in> set (statuses (serve lim burst cs))
         \<and> set (statuses (serve lim burst cs)) \<subseteq> {200, 429}"
proof -
  obtain c st where cs: "cs = (c, st)" by (cases cs)
  from well_formed cs
  have "wellFormed (map id' (stored_notes st)) (map id' (stored_notes st)) burst" by simp
  then have served:
    "\<forall>(admitted, r) \<in> set (serve lim burst cs). admitted \<longrightarrow> status r = 200"
    unfolding cs by (rule well_formed_served [OF subset_refl subset_refl])
  from over obtain t call rest where burst: "burst = (t, call) # rest"
    by (cases burst) auto
  from same burst have k: "clientKey call = k" by simp
  from fresh cs burst have "idle lim c k t" by simp
  with positive
  have a: "allow lim t (clientKey call) c = (True, c(k \<mapsto> (t, 1)))"
    by (simp add: k allow_idle)
  let ?c = "c(k \<mapsto> (t, 1))" and ?st = "snd (controller call st)"
  have run: "serve lim burst cs
      = (True, fst (controller call st)) # serve lim rest (?c, ?st)"
    by (simp add: burst cs handle_admit [OF a])
  have "(False, tooManyRequests) \<in> set (serve lim rest (?c, ?st))"
  proof (rule over_budget_rejects)
    show "?c k = Some (t, 1)" by simp
    show "\<forall>(t', call) \<in> set rest. clientKey call = k \<and> t' < t + window lim"
      using same inside burst by auto
    show "budget lim (snd k) - 1 < length rest"
      using over burst positive by simp
  qed
  then have "(False, tooManyRequests) \<in> set (serve lim burst cs)" by (simp add: run)
  then have "status tooManyRequests \<in> set (statuses (serve lim burst cs))"
    unfolding statuses_def by force
  then have one: "429 \<in> set (statuses (serve lim burst cs))"
    by (simp add: tooManyRequests_def)
  have "(True, fst (controller call st)) \<in> set (serve lim burst cs)" by (simp add: run)
  moreover from this served have "status (fst (controller call st)) = 200" by auto
  ultimately have two: "200 \<in> set (statuses (serve lim burst cs))"
    unfolding statuses_def by force
  have three: "set (statuses (serve lim burst cs)) \<subseteq> {200, 429}"
  proof
    fix n assume "n \<in> set (statuses (serve lim burst cs))"
    then obtain d r where m: "(d, r) \<in> set (serve lim burst cs)" and n: "n = status r"
      unfolding statuses_def by auto
    show "n \<in> {200, 429}"
    proof (cases d)
      case True
      with m served n show ?thesis by auto
    next
      case False
      with m have "r = tooManyRequests" by (simp add: rejected_is_429)
      with n show ?thesis by (simp add: tooManyRequests_def)
    qed
  qed
  from one two three show ?thesis by blast
qed

theorem burst_over_budget_witness:
  "length testBurst = 3 \<and> budget testLimits ReadOp = 2
   \<and> statuses (serve testLimits testBurst (Map.empty, expiredState)) = [200, 200, 429]
   \<and> 429 \<in> set (statuses (serve testLimits testBurst (Map.empty, expiredState)))
   \<and> 200 \<in> set (statuses (serve testLimits testBurst (Map.empty, expiredState)))
   \<and> set (statuses (serve testLimits testBurst (Map.empty, expiredState))) \<subseteq> {200, 429}
   \<and> length writeBurst = 3 \<and> budget testLimits WriteOp = 2
   \<and> wellFormed [] [] writeBurst
   \<and> 429 \<in> set (statuses (serve testLimits writeBurst (Map.empty, emptyState)))
   \<and> 200 \<in> set (statuses (serve testLimits writeBurst (Map.empty, emptyState)))
   \<and> set (statuses (serve testLimits writeBurst (Map.empty, emptyState))) \<subseteq> {200, 429}"
proof -
  let ?w = "(str ''127.0.0.1'', WriteOp)"
  have wsame: "\<forall>(t, call) \<in> set writeBurst. clientKey call = ?w"
    and winside: "\<forall>(t, call) \<in> set writeBurst. t < fst (hd writeBurst) + window testLimits"
    and wfresh: "idle testLimits (fst (Map.empty, emptyState)) ?w (fst (hd writeBurst))"
    and wpositive: "0 < budget testLimits (snd ?w)"
    and wover: "budget testLimits (snd ?w) < length writeBurst"
    by (simp_all add: writeBurst_def testLimits_def idle_def testRequest_def)
  have wwf: "wellFormed (map id' (stored_notes (snd (Map.empty, emptyState))))
      (map id' (stored_notes (snd (Map.empty, emptyState)))) writeBurst"
    by (simp add: emptyState_def writeBurst_well_formed)
  note writes = burst_over_budget [OF wsame winside wfresh wpositive wover wwf]
  have wl: "length writeBurst = 3" "budget testLimits WriteOp = 2"
    by (simp_all add: writeBurst_def testLimits_def)
  let ?k = "(str ''127.0.0.1'', ReadOp)"
  have same: "\<forall>(t, call) \<in> set testBurst. clientKey call = ?k"
    and inside: "\<forall>(t, call) \<in> set testBurst. t < fst (hd testBurst) + window testLimits"
    and fresh: "idle testLimits (fst (Map.empty, expiredState)) ?k (fst (hd testBurst))"
    and positive: "0 < budget testLimits (snd ?k)"
    and over: "budget testLimits (snd ?k) < length testBurst"
    by (simp_all add: testBurst_def testLimits_def idle_def)
  have wf: "wellFormed (map id' (stored_notes (snd (Map.empty, expiredState))))
      (map id' (stored_notes (snd (Map.empty, expiredState)))) testBurst"
    by (simp add: testBurst_def expiredState_def expired_id_valid) (simp add: expiredNote_def)
  have st: "statuses (serve testLimits testBurst (Map.empty, expiredState)) = [200, 200, 429]"
    by (simp add: testBurst_served statuses_def tooManyRequests_def)
  have "length testBurst = 3" "budget testLimits ReadOp = 2"
    by (simp_all add: testBurst_def testLimits_def)
  with burst_over_budget [OF same inside fresh positive over wf] st writes wl
    writeBurst_well_formed
  show ?thesis by simp
qed

text \<open>
  Claim C9 as stated fails: three writes of the note of the acceptance test by one
  client inside one window, with a budget of two, all three requests well formed; the
  persistence layer fails at the second, which is answered with 500 (section 7), so the
  statuses are 200, 500 and 429.
\<close>

theorem storage_failure_in_burst:
  "accepted testRequest
   \<and> map fst failingBurst = [5000, 5001, 5002] \<and> window testLimits = 1000
   \<and> map (clientKey \<circ> snd) failingBurst
       = [(str ''127.0.0.1'', WriteOp), (str ''127.0.0.1'', WriteOp),
          (str ''127.0.0.1'', WriteOp)]
   \<and> budget testLimits WriteOp = 2 \<and> length failingBurst = 3
   \<and> statuses (serve testLimits failingBurst (Map.empty, emptyState)) = [200, 500, 429]
   \<and> 500 \<in> set (statuses (serve testLimits failingBurst (Map.empty, emptyState)))"
  by (simp add: failingBurst_statuses testRequest_accepted)
     (simp add: failingBurst_def testLimits_def testRequest_def)

end
